theory Spec2Isabelle
  imports Complex_Main
begin

section \<open>Python values and exceptions\<close>

text \<open>
  The exceptions that the modelled code can meet. An exception that leaves a function is
  the \<open>Inl\<close> branch of its result; \<open>None\<close> is Python's \<open>None\<close>.
\<close>

datatype pyerror =
  TypeError | ValueError | AttributeError | OverflowError | ZeroDivisionError
  | OSError | UnicodeDecodeError | JSONDecodeError

text \<open>
  \<open>str(n)\<close> for an \<open>int\<close>: the decimal digits, with a leading minus sign for a
  negative number.
\<close>

definition digit :: "nat \<Rightarrow> char" where
  "digit d = ''0123456789'' ! d"

fun str_nat :: "nat \<Rightarrow> string" where
  "str_nat n = (if n < 10 then [digit n] else str_nat (n div 10) @ [digit (n mod 10)])"

declare str_nat.simps [simp del]

definition str_int :: "int \<Rightarrow> string" where
  "str_int i = (if i < 0 then ''-'' @ str_nat (nat (- i)) else str_nat (nat i))"

text \<open>\<open>str((w, h))\<close> for a pair of ints, as an f-string renders it: \<open>(220, 220)\<close>.\<close>

definition str_size :: "int \<times> int \<Rightarrow> string" where
  "str_size s = ''('' @ str_int (fst s) @ '', '' @ str_int (snd s) @ '')''"

section \<open>Images\<close>

text \<open>
  A decoded picture is its width, its height and its pixel data. The pixel data is kept
  symbolic: \<open>Decoded n\<close> is the content of the \<open>n\<close>-th distinct picture, and
  \<open>Lanczos p s\<close> is \<open>p\<close> resampled to the size \<open>s\<close> with the Lanczos filter. No
  statement below depends on what the resampled pixel values are.
\<close>

datatype pixels = Decoded nat | Lanczos pixels "int \<times> int"

record image =
  width :: int
  height :: int
  data :: pixels

text \<open>\<open>ImageTk.PhotoImage(img)\<close>: the Tk bitmap made from an image.\<close>

datatype photo = PhotoImage image

text \<open>
  The file system as \<open>ImageCache\<close> sees it. A path that maps to nothing does not exist
  (\<open>os.path.exists\<close> is false). An existing file is either a picture, given by the image
  that \<open>Image.open(path).convert("RGBA")\<close> returns for it, or a file on which that
  expression raises.
\<close>

datatype disk_file = Picture image | Undecodable

type_synonym filesystem = "string \<rightharpoonup> disk_file"

subsection \<open>Pillow's thumbnail\<close>

text \<open>
  \<open>Image.thumbnail(size, resample)\<close> belongs to the Pillow library, not to this
  repository; \<open>ImageCache.get\<close> calls it. The definitions below follow Pillow's
  \<open>Image.thumbnail\<close> (its inner functions \<open>round_aspect\<close> and
  \<open>preserve_aspect_ratio\<close>) and \<open>Image.resize\<close>, as they are since Pillow 7.0. Pillow
  computes the aspect ratio in floating point; here the same expressions are evaluated
  in exact rational arithmetic. The early return for an image that already fits the
  requested size involves no division and is the same in every version of Pillow.

  \<^verbatim>\<open>
  def round_aspect(number, key):
      return max(min(math.floor(number), math.ceil(number), key=key), 1)

  x, y = provided_size
  if x >= self.width and y >= self.height:
      return
  aspect = self.width / self.height
  if x / y >= aspect:
      x = round_aspect(y * aspect, key=lambda n: abs(aspect - n / y))
  else:
      y = round_aspect(x / aspect, key=lambda n: 0 if n == 0 else abs(aspect - x / n))
  return x, y
  \<close>

  Python's \<open>min(a, b, key=key)\<close> returns \<open>a\<close> unless \<open>key(b) < key(a)\<close>. A division
  by zero raises \<open>ZeroDivisionError\<close>.
\<close>

definition round_aspect :: "rat \<Rightarrow> (int \<Rightarrow> rat) \<Rightarrow> int" where
  "round_aspect number key =
     max (if key \<lceil>number\<rceil> < key \<lfloor>number\<rfloor> then \<lceil>number\<rceil> else \<lfloor>number\<rfloor>) 1"

definition preserve_aspect_ratio :: "int \<times> int \<Rightarrow> image \<Rightarrow> pyerror + (int \<times> int) option" where
  "preserve_aspect_ratio provided_size im =
     (let x = fst provided_size; y = snd provided_size in
      if x \<ge> width im \<and> y \<ge> height im then Inr None
      else if height im = 0 then Inl ZeroDivisionError
      else
        let aspect = rat_of_int (width im) / rat_of_int (height im) in
        if y = 0 then Inl ZeroDivisionError
        else if rat_of_int x / rat_of_int y \<ge> aspect then
          Inr (Some (round_aspect (rat_of_int y * aspect)
                       (\<lambda>n. \<bar>aspect - rat_of_int n / rat_of_int y\<bar>), y))
        else if aspect = 0 then Inl ZeroDivisionError
        else
          Inr (Some (x, round_aspect (rat_of_int x / aspect)
                          (\<lambda>n. if n = 0 then 0 else \<bar>aspect - rat_of_int x / rat_of_int n\<bar>))))"

text \<open>
  \<open>Image.resize\<close> of an RGBA image to a new size: the core raises \<open>ValueError\<close> unless
  both dimensions are positive; the whole picture is resampled (the box is the full
  image).
\<close>

definition resize :: "int \<times> int \<Rightarrow> image \<Rightarrow> pyerror + image" where
  "resize sz im =
     (if fst sz < 1 \<or> snd sz < 1 then Inl ValueError
      else Inr \<lparr>width = fst sz, height = snd sz, data = Lanczos (data im) sz\<rparr>)"

text \<open>
  \<open>thumbnail\<close> changes the image in place; the model returns the changed image. It
  returns early, leaving the image as it is, when the image already fits the requested
  size, and it resizes only when the computed size differs from the image's size.
\<close>

definition thumbnail :: "int \<times> int \<Rightarrow> image \<Rightarrow> pyerror + image" where
  "thumbnail sz im =
     (case preserve_aspect_ratio sz im of
        Inl e \<Rightarrow> Inl e
      | Inr None \<Rightarrow> Inr im
      | Inr (Some final) \<Rightarrow>
          if (width im, height im) = final then Inr im else resize final im)"

section \<open>ImageCache\<close>

record cache =
  orig_cache :: "string \<rightharpoonup> image"
  thumb_cache :: "string \<rightharpoonup> photo"

text \<open>\<open>ImageCache.__init__\<close>: both dictionaries start empty.\<close>

definition init_cache :: cache where
  "init_cache = \<lparr>orig_cache = Map.empty, thumb_cache = Map.empty\<rparr>"

text \<open>
  \<open>ImageCache._load_orig\<close>. The result is the returned value and the cache after the
  call. The test for an empty path and for the file's existence comes first, before the
  dictionary is consulted; an exception of the decoding is caught and gives \<open>None\<close>
  with nothing stored.
\<close>

definition load_orig :: "filesystem \<Rightarrow> cache \<Rightarrow> string \<Rightarrow> image option \<times> cache" where
  "load_orig fs c path =
     (if path = [] \<or> fs path = None then (None, c)
      else
        case orig_cache c path of
          Some img \<Rightarrow> (Some img, c)
        | None \<Rightarrow>
            (case fs path of
               Some (Picture img) \<Rightarrow> (Some img, c\<lparr>orig_cache := (orig_cache c)(path \<mapsto> img)\<rparr>)
             | _ \<Rightarrow> (None, c)))"

text \<open>
  The key of the thumbnail dictionary:
  \<^verbatim>\<open>key = f"{path}|{size}" if size else f"{path}|orig"\<close>.
  A size is a pair, which is never falsy, so only an absent size takes the second form.
\<close>

definition cache_key :: "string \<Rightarrow> (int \<times> int) option \<Rightarrow> string" where
  "cache_key path sz =
     (case sz of Some s \<Rightarrow> path @ ''|'' @ str_size s | None \<Rightarrow> path @ ''|orig'')"

text \<open>
  The working copy of the original, scaled when a size is given:
  \<^verbatim>\<open>img = orig.copy(); if size: img.thumbnail(size, Image.LANCZOS)\<close>.
\<close>

definition scaled_copy :: "(int \<times> int) option \<Rightarrow> image \<Rightarrow> pyerror + image" where
  "scaled_copy sz orig = (case sz of Some s \<Rightarrow> thumbnail s orig | None \<Rightarrow> Inr orig)"

text \<open>
  \<open>ImageCache.get\<close>. The result is the outcome (an exception that leaves the method, or
  the returned value) and the cache after the call. The method has no handler of its
  own, so an exception of \<open>thumbnail\<close> leaves it, after \<open>_load_orig\<close> has done its
  work.
\<close>

definition get :: "filesystem \<Rightarrow> cache \<Rightarrow> string \<Rightarrow> (int \<times> int) option
    \<Rightarrow> (pyerror + photo option) \<times> cache" where
  "get fs c path sz =
     (case load_orig fs c path of
        (None, c1) \<Rightarrow> (Inr None, c1)
      | (Some orig, c1) \<Rightarrow>
          (let key = cache_key path sz in
           (case thumb_cache c1 key of
              Some tk_img \<Rightarrow> (Inr (Some tk_img), c1)
            | None \<Rightarrow>
                (case scaled_copy sz orig of
                   Inl e \<Rightarrow> (Inl e, c1)
                 | Inr img \<Rightarrow>
                     (let tk_img = PhotoImage img in
                      (Inr (Some tk_img),
                       c1\<lparr>thumb_cache := (thumb_cache c1)(key \<mapsto> tk_img)\<rparr>))))))"

text \<open>
  A history of calls to \<open>get\<close>: each call names the file system as it is at that moment
  (files may be written, replaced or deleted between calls), the path and the size.
  \<open>after_calls\<close> is the cache after the calls, whatever their outcomes.
\<close>

type_synonym call = "filesystem \<times> string \<times> (int \<times> int) option"

fun after_calls :: "call list \<Rightarrow> cache \<Rightarrow> cache" where
  "after_calls [] c = c"
| "after_calls (k # ks) c = after_calls ks (snd (get (fst k) c (fst (snd k)) (snd (snd k))))"

text \<open>
  The part of a key after the path and the bar. It is introduced for the proofs: a key is
  the path, a bar and this suffix, and the suffix holds no bar.
\<close>

definition key_suffix :: "(int \<times> int) option \<Rightarrow> string" where
  "key_suffix sz = (case sz of Some s \<Rightarrow> str_size s | None \<Rightarrow> ''orig'')"

text \<open>
  The invariant of the cache, used in the proofs: every thumbnail entry is stored under
  the key of some path and size, the original dictionary holds an image for that path,
  and the entry is the scaled copy of that image at that size.
\<close>

definition cache_inv :: "cache \<Rightarrow> bool" where
  "cache_inv c =
     (\<forall>k t. thumb_cache c k = Some t \<longrightarrow>
        (\<exists>p s orig img. k = cache_key p s \<and> orig_cache c p = Some orig \<and>
           scaled_copy s orig = Inr img \<and> t = PhotoImage img))"

section \<open>Options and their configuration file\<close>

text \<open>
  The value that \<open>json.load\<close> returns. A float is its exact value, or one of the three
  special values that Python's parser accepts. An object is the dictionary after
  parsing, as the list of its items: every key occurs once.
\<close>

datatype pyfloat = Finite rat | PosInf | NegInf | NaN

datatype json =
  JNull | JBool bool | JInt int | JFloat pyfloat | JStr string
  | JArr "json list" | JObj "(string \<times> json) list"

text \<open>
  Two conversions of Python are taken as parameters: \<open>int(s)\<close> for a string (\<open>None\<close>
  when it raises \<open>ValueError\<close>) and \<open>str(v)\<close> for a float, a list or a dictionary.
  Every statement below holds for all such conversions.
\<close>

record builtins =
  int_str :: "string \<Rightarrow> int option"
  repr :: "json \<Rightarrow> string"

text \<open>
  \<open>int(v)\<close>: \<open>None\<close>, a list and a dictionary raise \<open>TypeError\<close>, a string that is no
  number and a NaN raise \<open>ValueError\<close>, an infinity raises \<open>OverflowError\<close>; a finite
  float is truncated towards zero and a boolean is 0 or 1.
\<close>

definition py_int :: "builtins \<Rightarrow> json \<Rightarrow> pyerror + int" where
  "py_int py v =
     (case v of
        JNull \<Rightarrow> Inl TypeError
      | JBool b \<Rightarrow> Inr (if b then 1 else 0)
      | JInt i \<Rightarrow> Inr i
      | JFloat f \<Rightarrow>
          (case f of
             Finite r \<Rightarrow> Inr (if r < 0 then \<lceil>r\<rceil> else \<lfloor>r\<rfloor>)
           | NaN \<Rightarrow> Inl ValueError
           | _ \<Rightarrow> Inl OverflowError)
      | JStr s \<Rightarrow> (case int_str py s of Some i \<Rightarrow> Inr i | None \<Rightarrow> Inl ValueError)
      | JArr xs \<Rightarrow> Inl TypeError
      | JObj kvs \<Rightarrow> Inl TypeError)"

text \<open>\<open>str(v)\<close> never raises; \<open>str(None)\<close> is the text \<open>None\<close>.\<close>

definition py_str :: "builtins \<Rightarrow> json \<Rightarrow> string" where
  "py_str py v =
     (case v of
        JNull \<Rightarrow> ''None''
      | JBool b \<Rightarrow> (if b then ''True'' else ''False'')
      | JInt i \<Rightarrow> str_int i
      | JStr s \<Rightarrow> s
      | _ \<Rightarrow> repr py v)"

text \<open>\<open>d.get(key)\<close> on a dictionary: the value, or \<open>None\<close> when the key is absent.\<close>

definition dict_get :: "(string \<times> json) list \<Rightarrow> string \<Rightarrow> json" where
  "dict_get kvs k = (case map_of kvs k of Some v \<Rightarrow> v | None \<Rightarrow> JNull)"

text \<open>
  \<open>for item in raw\<close>: a list gives its elements, a dictionary its keys, a string its
  characters; nothing else can be iterated.
\<close>

definition py_iter :: "json \<Rightarrow> pyerror + json list" where
  "py_iter raw =
     (case raw of
        JArr xs \<Rightarrow> Inr xs
      | JObj kvs \<Rightarrow> Inr (map (\<lambda>kv. JStr (fst kv)) kvs)
      | JStr s \<Rightarrow> Inr (map (\<lambda>ch. JStr [ch]) s)
      | _ \<Rightarrow> Inl TypeError)"

text \<open>The dataclass \<open>Option\<close>.\<close>

record app_option =
  id' :: int
  name :: string
  image_path :: string

text \<open>
  \<^verbatim>\<open>Option(id=int(item.get("id")), name=str(item.get("name")), image_path=str(item.get("image")))\<close>.
  Only a dictionary has the method \<open>get\<close>; on anything else the call raises
  \<open>AttributeError\<close>.
\<close>

definition make_option :: "builtins \<Rightarrow> json \<Rightarrow> pyerror + app_option" where
  "make_option py item =
     (case item of
        JObj kvs \<Rightarrow>
          (case py_int py (dict_get kvs ''id'') of
             Inl e \<Rightarrow> Inl e
           | Inr i \<Rightarrow>
               Inr \<lparr>id' = i, name = py_str py (dict_get kvs ''name''),
                    image_path = py_str py (dict_get kvs ''image'')\<rparr>)
      | _ \<Rightarrow> Inl AttributeError)"

text \<open>
  The loop that fills the local list \<open>options\<close>; the first exception ends it. The list
  is local to \<open>load_options_file\<close>: the application's state is not touched here.
\<close>

fun build_options :: "builtins \<Rightarrow> json list \<Rightarrow> app_option list \<Rightarrow> pyerror + app_option list" where
  "build_options py [] options = Inr options"
| "build_options py (item # rest) options =
     (case make_option py item of
        Inl e \<Rightarrow> Inl e
      | Inr opt \<Rightarrow> build_options py rest (options @ [opt]))"

definition parse_options :: "builtins \<Rightarrow> json \<Rightarrow> pyerror + app_option list" where
  "parse_options py raw =
     (case py_iter raw of Inl e \<Rightarrow> Inl e | Inr items \<Rightarrow> build_options py items [])"

text \<open>\<^verbatim>\<open>{o.name: o for o in self.options}\<close>: a later option replaces an earlier one.\<close>

definition index_by_name :: "app_option list \<Rightarrow> (string \<rightharpoonup> app_option)" where
  "index_by_name opts = foldl (\<lambda>m opt. m(name opt \<mapsto> opt)) Map.empty opts"

section \<open>The nine cells\<close>

definition CELL_WIDTH :: int where
  "CELL_WIDTH = 220"

definition CELL_HEIGHT :: int where
  "CELL_HEIGHT = 220"

text \<open>
  A cell: the text of its \<open>name_var\<close>, the values offered by its combo box, and the
  image shown by its label (\<open>None\<close> when the label shows nothing).
\<close>

record cell =
  name_var :: string
  combo_values :: "string list"
  img_label :: "photo option"

text \<open>
  The status line holds one of three texts: the initial one, the one set after a load
  (built from the base name of the path) and the one set by the clear button.
\<close>

datatype status = Ready | Loaded string | Cleared

text \<open>\<open>messagebox.showerror(title, message)\<close>; the message is built from the path and the exception.\<close>

datatype dialog = ShowError string string pyerror

record app =
  image_cache :: cache
  options :: "app_option list"
  option_names :: "string list"
  name_to_option :: "string \<rightharpoonup> app_option"
  cells :: "cell list"
  status_var :: status
  dialogs :: "dialog list"

text \<open>
  \<open>_refresh_cell_image\<close>: the image of the option that the cell's name selects, or nothing
  when the name selects no option or the image is absent. An exception of \<open>get\<close> leaves
  the method before the label is touched.
\<close>

definition refresh_cell_image :: "filesystem \<Rightarrow> (string \<rightharpoonup> app_option) \<Rightarrow> cache \<Rightarrow> cell
    \<Rightarrow> (pyerror + cell) \<times> cache" where
  "refresh_cell_image fs idx c cl =
     (case idx (name_var cl) of
        None \<Rightarrow> (Inr (cl\<lparr>img_label := None\<rparr>), c)
      | Some opt \<Rightarrow>
          (case get fs c (image_path opt) (Some (CELL_WIDTH, CELL_HEIGHT)) of
             (Inl e, c') \<Rightarrow> (Inl e, c')
           | (Inr tk_img, c') \<Rightarrow> (Inr (cl\<lparr>img_label := tk_img\<rparr>), c')))"

text \<open>
  The loop over the cells in \<open>load_options_file\<close>: the combo box takes the new names, a
  selection that is not among them is set to the empty string, and the image is
  refreshed. The result is the exception that ended the loop, if any, the cache, and the
  cells as the loop left them.
\<close>

fun load_cells :: "filesystem \<Rightarrow> (string \<rightharpoonup> app_option) \<Rightarrow> string list \<Rightarrow> cache \<Rightarrow> cell list
    \<Rightarrow> pyerror option \<times> cache \<times> cell list" where
  "load_cells fs idx names c [] = (None, c, [])"
| "load_cells fs idx names c (cl # rest) =
     (let cl1 = cl\<lparr>combo_values := names\<rparr>;
          cl2 = (if name_var cl1 \<notin> set names then cl1\<lparr>name_var := []\<rparr> else cl1)
      in
        (case refresh_cell_image fs idx c cl2 of
           (Inl e, c') \<Rightarrow> (Some e, c', cl2 # rest)
         | (Inr cl3, c') \<Rightarrow>
             (case load_cells fs idx names c' rest of
                (r, c'', rest') \<Rightarrow> (r, c'', cl3 # rest'))))"

text \<open>
  \<open>load_options_file\<close>. \<open>rd path\<close> is the outcome of opening the file and of
  \<open>json.load\<close>. The result is the exception that leaves the method, if any, and the
  application's state after the call. Both handlers show an error dialog and return.
\<close>

definition load_options_file :: "builtins \<Rightarrow> (string \<Rightarrow> pyerror + json) \<Rightarrow> filesystem \<Rightarrow> app
    \<Rightarrow> string \<Rightarrow> pyerror option \<times> app" where
  "load_options_file py rd fs s path =
     (case rd path of
        Inl e \<Rightarrow> (None, s\<lparr>dialogs := dialogs s @ [ShowError ''Load Options Failed'' path e]\<rparr>)
      | Inr raw \<Rightarrow>
          (case parse_options py raw of
             Inl e \<Rightarrow>
               (None, s\<lparr>dialogs := dialogs s @ [ShowError ''Invalid Options Format'' path e]\<rparr>)
           | Inr opts \<Rightarrow>
               (let s1 = s\<lparr>options := opts, option_names := map name opts,
                            name_to_option := index_by_name opts\<rparr>
                in
                  (case load_cells fs (name_to_option s1) (option_names s1) (image_cache s1)
                          (cells s1) of
                     (Some e, c', cells') \<Rightarrow> (Some e, s1\<lparr>image_cache := c', cells := cells'\<rparr>)
                   | (None, c', cells') \<Rightarrow>
                       (None, s1\<lparr>image_cache := c', cells := cells',
                                  status_var := Loaded path\<rparr>)))))"

section \<open>Sample files and caches\<close>

text \<open>
  Concrete inputs for the statements below: three pictures, a file system that holds
  them and a text file, the file systems after a deletion, a replacement and a repair,
  and the caches that single requests leave behind.
\<close>

definition small_img :: image where
  "small_img = \<lparr>width = 100, height = 50, data = Decoded 2\<rparr>"

definition wide_img :: image where
  "wide_img = \<lparr>width = 256, height = 128, data = Decoded 1\<rparr>"

definition sample_img :: image where
  "sample_img = \<lparr>width = 256, height = 256, data = Decoded 0\<rparr>"

definition fs_sample :: filesystem where
  "fs_sample = [''images/sample_1.png'' \<mapsto> Picture sample_img, ''wide.png'' \<mapsto> Picture wide_img,
     ''small.png'' \<mapsto> Picture small_img, ''notes.txt'' \<mapsto> Undecodable]"

definition fs_deleted :: filesystem where
  "fs_deleted = Map.empty"

definition cache_small :: cache where
  "cache_small = \<lparr>orig_cache = [''small.png'' \<mapsto> small_img],
     thumb_cache = [cache_key ''small.png'' (Some (220, 220)) \<mapsto> PhotoImage small_img]\<rparr>"

definition cache_wide :: cache where
  "cache_wide = \<lparr>orig_cache = [''wide.png'' \<mapsto> wide_img],
     thumb_cache = [cache_key ''wide.png'' (Some (220, 220)) \<mapsto>
        PhotoImage \<lparr>width = 220, height = 110, data = Lanczos (Decoded 1) (220, 110)\<rparr>]\<rparr>"

definition fs_changed :: filesystem where
  "fs_changed = [''small.png'' \<mapsto> Picture sample_img]"

definition cache_sample :: cache where
  "cache_sample = \<lparr>orig_cache = [''images/sample_1.png'' \<mapsto> sample_img],
     thumb_cache = [cache_key ''images/sample_1.png'' (Some (220, 220)) \<mapsto>
        PhotoImage \<lparr>width = 220, height = 220, data = Lanczos (Decoded 0) (220, 220)\<rparr>]\<rparr>"

definition fs_repaired :: filesystem where
  "fs_repaired = [''notes.txt'' \<mapsto> Picture sample_img]"

subsection \<open>Sample configurations and application states\<close>

text \<open>
  \<open>py0\<close> stands in for the two conversions that are parameters; no evaluation below
  consults it. \<open>app0\<close> is the application before any load, with nine blank cells;
  \<open>app_A\<close> is the application after a load of one option named A, with A selected and
  shown in the first cell; \<open>app_B\<close> is the state that a reload with one option named B
  leaves. \<open>rd_file content\<close> is a directory that holds \<open>options.json\<close> with the given
  parsed content and nothing else.
\<close>

definition py0 :: builtins where
  "py0 = \<lparr>int_str = (\<lambda>s. None), repr = (\<lambda>v. [])\<rparr>"

definition option_A :: app_option where
  "option_A = \<lparr>id' = 1, name = ''A'', image_path = ''small.png''\<rparr>"

definition option_A2 :: app_option where
  "option_A2 = \<lparr>id' = 2, name = ''A'', image_path = ''wide.png''\<rparr>"

definition option_B :: app_option where
  "option_B = \<lparr>id' = 1, name = ''B'', image_path = ''wide.png''\<rparr>"

definition blank_cell :: cell where
  "blank_cell = \<lparr>name_var = [], combo_values = [], img_label = None\<rparr>"

definition idle_cell :: "string list \<Rightarrow> cell" where
  "idle_cell names = \<lparr>name_var = [], combo_values = names, img_label = None\<rparr>"

definition cell_A :: cell where
  "cell_A = \<lparr>name_var = ''A'', combo_values = [''A''], img_label = Some (PhotoImage small_img)\<rparr>"

definition app0 :: app where
  "app0 = \<lparr>image_cache = init_cache, options = [], option_names = [], name_to_option = Map.empty,
     cells = [blank_cell, blank_cell, blank_cell, blank_cell, blank_cell, blank_cell, blank_cell,
              blank_cell, blank_cell],
     status_var = Ready, dialogs = []\<rparr>"

definition app_A :: app where
  "app_A = \<lparr>image_cache = cache_small, options = [option_A], option_names = [''A''],
     name_to_option = [''A'' \<mapsto> option_A],
     cells = [cell_A, idle_cell [''A''], idle_cell [''A''], idle_cell [''A''], idle_cell [''A''],
              idle_cell [''A''], idle_cell [''A''], idle_cell [''A''], idle_cell [''A'']],
     status_var = Loaded ''options.json'', dialogs = []\<rparr>"

definition app_B :: app where
  "app_B = \<lparr>image_cache = cache_small, options = [option_B], option_names = [''B''],
     name_to_option = [''B'' \<mapsto> option_B],
     cells = [idle_cell [''B''], idle_cell [''B''], idle_cell [''B''], idle_cell [''B''],
              idle_cell [''B''], idle_cell [''B''], idle_cell [''B''], idle_cell [''B''],
              idle_cell [''B'']],
     status_var = Loaded ''options.json'', dialogs = []\<rparr>"

definition json_B :: json where
  "json_B = JArr [JObj [(''id'', JInt 1), (''name'', JStr ''B''), (''image'', JStr ''wide.png'')]]"

definition json_no_name :: json where
  "json_no_name = JArr [JObj [(''id'', JInt 1), (''image'', JStr ''small.png'')]]"

definition json_no_id :: json where
  "json_no_id = JArr [JObj [(''name'', JStr ''B''), (''image'', JStr ''wide.png'')]]"

definition json_dup :: json where
  "json_dup = JArr [JObj [(''id'', JInt 1), (''name'', JStr ''A''), (''image'', JStr ''small.png'')],
                    JObj [(''id'', JInt 2), (''name'', JStr ''A''), (''image'', JStr ''wide.png'')]]"

definition rd_file :: "json \<Rightarrow> string \<Rightarrow> pyerror + json" where
  "rd_file content path = (if path = ''options.json'' then Inr content else Inl OSError)"

section \<open>Properties of the string rendering\<close>

lemma digit_in: "d < 10 \<Longrightarrow> digit d \<in> set ''0123456789''"
  unfolding digit_def by (rule nth_mem) simp

lemma digit_inj: "a < 10 \<Longrightarrow> b < 10 \<Longrightarrow> digit a = digit b \<Longrightarrow> a = b"
proof -
  assume a: "a < 10" and b: "b < 10" and e: "digit a = digit b"
  have d: "distinct ''0123456789''" by simp
  have "length ''0123456789'' = 10" by simp
  with a b e d show "a = b" unfolding digit_def by (simp add: nth_eq_iff_index_eq)
qed

lemma str_nat_small: "n < 10 \<Longrightarrow> str_nat n = [digit n]"
  by (subst str_nat.simps) simp

lemma str_nat_big: "\<not> n < 10 \<Longrightarrow> str_nat n = str_nat (n div 10) @ [digit (n mod 10)]"
  by (subst str_nat.simps) simp

lemma str_nat_digits: "set (str_nat n) \<subseteq> set ''0123456789''"
proof (induction n rule: str_nat.induct)
  case (1 n)
  show ?case
  proof (cases "n < 10")
    case True
    then show ?thesis using digit_in [of n] by (simp add: str_nat_small)
  next
    case False
    have "n mod 10 < 10" by simp
    then have "digit (n mod 10) \<in> set ''0123456789''" by (rule digit_in)
    with False 1 show ?thesis by (simp add: str_nat_big)
  qed
qed

lemma str_nat_nonempty: "str_nat n \<noteq> []"
  by (subst str_nat.simps) simp

lemma str_nat_inj: "str_nat n = str_nat m \<Longrightarrow> n = m"
proof (induction n arbitrary: m rule: str_nat.induct)
  case (1 n)
  show ?case
  proof (cases "n < 10")
    case n: True
    show ?thesis
    proof (cases "m < 10")
      case True
      with n 1(2) show ?thesis
        using digit_inj [of n m] by (simp add: str_nat_small)
    next
      case False
      with n 1(2) have "[digit n] = str_nat (m div 10) @ [digit (m mod 10)]"
        by (simp add: str_nat_small str_nat_big)
      then show ?thesis using str_nat_nonempty [of "m div 10"] by simp
    qed
  next
    case n: False
    show ?thesis
    proof (cases "m < 10")
      case True
      with n 1(2) have "str_nat (n div 10) @ [digit (n mod 10)] = [digit m]"
        by (simp add: str_nat_small str_nat_big)
      then show ?thesis using str_nat_nonempty [of "n div 10"] by simp
    next
      case False
      with n 1(2) have "str_nat (n div 10) @ [digit (n mod 10)] = str_nat (m div 10) @ [digit (m mod 10)]"
        by (simp add: str_nat_small str_nat_big)
      then have a: "str_nat (n div 10) = str_nat (m div 10)" and b: "digit (n mod 10) = digit (m mod 10)"
        by simp_all
      from 1(1) [OF n a] have "n div 10 = m div 10" .
      moreover from b have "n mod 10 = m mod 10"
        using digit_inj [of "n mod 10" "m mod 10"] by simp
      ultimately show ?thesis by (metis div_mult_mod_eq)
    qed
  qed
qed

lemma str_nat_chars: "c \<in> set (str_nat n) \<Longrightarrow> c \<in> set ''0123456789''"
  using str_nat_digits [of n] by (rule subsetD)

lemma str_nat_no_minus: "CHR ''-'' \<notin> set (str_nat n)"
proof
  assume "CHR ''-'' \<in> set (str_nat n)"
  then have "CHR ''-'' \<in> set ''0123456789''" by (rule str_nat_chars)
  then show False by simp
qed

lemma str_nat_no_comma: "CHR '','' \<notin> set (str_nat n)"
proof
  assume "CHR '','' \<in> set (str_nat n)"
  then have "CHR '','' \<in> set ''0123456789''" by (rule str_nat_chars)
  then show False by simp
qed

lemma str_nat_no_bar: "CHR ''|'' \<notin> set (str_nat n)"
proof
  assume "CHR ''|'' \<in> set (str_nat n)"
  then have "CHR ''|'' \<in> set ''0123456789''" by (rule str_nat_chars)
  then show False by simp
qed

lemma str_int_no_comma: "CHR '','' \<notin> set (str_int i)"
  by (simp add: str_int_def str_nat_no_comma)

lemma str_int_no_bar: "CHR ''|'' \<notin> set (str_int i)"
  by (simp add: str_int_def str_nat_no_bar)

lemma str_nat_hd: "hd (str_nat n) \<noteq> CHR ''-''"
proof -
  have "hd (str_nat n) \<in> set (str_nat n)" using str_nat_nonempty by simp
  then show ?thesis using str_nat_no_minus [of n] by metis
qed

lemma str_int_inj: "str_int i = str_int j \<Longrightarrow> i = j"
proof -
  assume e: "str_int i = str_int j"
  consider "i < 0" "j < 0" | "i < 0" "\<not> j < 0" | "\<not> i < 0" "j < 0" | "\<not> i < 0" "\<not> j < 0"
    by blast
  then show "i = j"
  proof cases
    case 1
    with e have "str_nat (nat (- i)) = str_nat (nat (- j))" by (simp add: str_int_def)
    then have "nat (- i) = nat (- j)" by (rule str_nat_inj)
    with 1 show ?thesis by simp
  next
    case 2
    with e have "CHR ''-'' # str_nat (nat (- i)) = str_nat (nat j)" by (simp add: str_int_def)
    then have "hd (str_nat (nat j)) = CHR ''-''" by (metis list.sel(1))
    then show ?thesis using str_nat_hd by blast
  next
    case 3
    with e have "CHR ''-'' # str_nat (nat (- j)) = str_nat (nat i)" by (simp add: str_int_def)
    then have "hd (str_nat (nat i)) = CHR ''-''" by (metis list.sel(1))
    then show ?thesis using str_nat_hd by blast
  next
    case 4
    with e have "str_nat (nat i) = str_nat (nat j)" by (simp add: str_int_def)
    then have "nat i = nat j" by (rule str_nat_inj)
    with 4 show ?thesis by simp
  qed
qed

lemma split_at_char:
  "c \<notin> set xs \<Longrightarrow> c \<notin> set xs' \<Longrightarrow> xs @ c # ys = xs' @ c # ys' \<Longrightarrow> xs = xs' \<and> ys = ys'"
proof (induction xs arbitrary: xs')
  case Nil
  then show ?case by (cases xs') auto
next
  case (Cons a xs)
  then show ?case by (cases xs') auto
qed

lemma split_at_last_char:
  "c \<notin> set ys \<Longrightarrow> c \<notin> set ys' \<Longrightarrow> xs @ c # ys = xs' @ c # ys' \<Longrightarrow> xs = xs' \<and> ys = ys'"
proof -
  assume a: "c \<notin> set ys" "c \<notin> set ys'" and e: "xs @ c # ys = xs' @ c # ys'"
  from e have "rev (xs @ c # ys) = rev (xs' @ c # ys')" by simp
  then have "rev ys @ c # rev xs = rev ys' @ c # rev xs'" by simp
  with a have "rev ys = rev ys' \<and> rev xs = rev xs'"
    using split_at_char [of c "rev ys" "rev ys'" "rev xs" "rev xs'"] by simp
  then show ?thesis by simp
qed

lemma str_size_inj: "str_size s = str_size t \<Longrightarrow> s = t"
proof -
  assume "str_size s = str_size t"
  then have e: "str_int (fst s) @ CHR '','' # (CHR '' '' # str_int (snd s)) =
             str_int (fst t) @ CHR '','' # (CHR '' '' # str_int (snd t))"
    by (simp add: str_size_def)
  have "CHR '','' \<notin> set (str_int (fst s))" "CHR '','' \<notin> set (str_int (fst t))"
    by (rule str_int_no_comma)+
  from split_at_char [OF this e]
  have "str_int (fst s) = str_int (fst t)" "str_int (snd s) = str_int (snd t)"
    by simp_all
  then have "fst s = fst t" "snd s = snd t"
    using str_int_inj [of "fst s" "fst t"] str_int_inj [of "snd s" "snd t"] by simp_all
  then show "s = t" by (simp add: prod_eq_iff)
qed

lemma str_size_no_bar: "CHR ''|'' \<notin> set (str_size s)"
  by (simp add: str_size_def str_int_no_bar)

lemma str_size_not_orig: "str_size s \<noteq> ''orig''"
  by (simp add: str_size_def)

lemma cache_key_suffix: "cache_key p sz = p @ CHR ''|'' # key_suffix sz"
  by (simp add: cache_key_def key_suffix_def split: option.splits)

lemma key_suffix_no_bar: "CHR ''|'' \<notin> set (key_suffix sz)"
  by (cases sz) (simp_all add: key_suffix_def str_size_no_bar)

lemma key_suffix_inj: "key_suffix s = key_suffix t \<Longrightarrow> s = t"
proof (cases s; cases t)
  fix a b assume "key_suffix s = key_suffix t" "s = Some a" "t = Some b"
  then show "s = t" using str_size_inj [of a b] by (simp add: key_suffix_def)
next
  fix a assume "key_suffix s = key_suffix t" "s = Some a" "t = None"
  then show "s = t" using str_size_not_orig [of a] by (simp add: key_suffix_def)
next
  fix b assume "key_suffix s = key_suffix t" "s = None" "t = Some b"
  then show "s = t" using str_size_not_orig [of b] by (simp add: key_suffix_def)
qed simp

lemma cache_key_inj: "cache_key p s = cache_key q t \<Longrightarrow> p = q \<and> s = t"
proof -
  assume "cache_key p s = cache_key q t"
  then have e: "p @ CHR ''|'' # key_suffix s = q @ CHR ''|'' # key_suffix t"
    by (simp only: cache_key_suffix)
  have a: "CHR ''|'' \<notin> set (key_suffix s)" by (rule key_suffix_no_bar)
  have b: "CHR ''|'' \<notin> set (key_suffix t)" by (rule key_suffix_no_bar)
  have c: "p = q \<and> key_suffix s = key_suffix t"
    by (rule split_at_last_char [OF a b e])
  from c have "s = t" by (intro key_suffix_inj) (rule conjunct2)
  with c show ?thesis by (intro conjI) (rule conjunct1)
qed

section \<open>Properties of the cache\<close>

lemma load_orig_thumb: "thumb_cache (snd (load_orig fs c p)) = thumb_cache c"
  by (simp add: load_orig_def split: option.splits disk_file.splits)

lemma load_orig_keeps: "orig_cache c q = Some i \<Longrightarrow> orig_cache (snd (load_orig fs c p)) q = Some i"
  by (auto simp add: load_orig_def split: option.splits disk_file.splits)

lemma load_orig_SomeD:
  "load_orig fs c p = (Some img, c1) \<Longrightarrow> orig_cache c1 p = Some img \<and> p \<noteq> [] \<and> fs p \<noteq> None"
  by (auto simp add: load_orig_def split: option.splits disk_file.splits if_splits)

lemma load_orig_origin:
  "orig_cache (snd (load_orig fs c p)) q = Some i \<Longrightarrow>
     orig_cache c q = Some i \<or> (q = p \<and> fs p = Some (Picture i))"
  by (auto simp add: load_orig_def split: option.splits disk_file.splits if_splits)

lemma load_orig_cached:
  "p \<noteq> [] \<Longrightarrow> fs p \<noteq> None \<Longrightarrow> orig_cache c p = Some img \<Longrightarrow> load_orig fs c p = (Some img, c)"
  by (simp add: load_orig_def)

lemma get_orig: "orig_cache (snd (get fs c p s)) = orig_cache (snd (load_orig fs c p))"
  by (cases "load_orig fs c p") (simp add: get_def Let_def split: option.splits sum.splits)

lemma get_keeps_orig: "orig_cache c q = Some i \<Longrightarrow> orig_cache (snd (get fs c p s)) q = Some i"
  by (simp add: get_orig load_orig_keeps)

lemma get_keeps_thumb: "thumb_cache c k = Some t \<Longrightarrow> thumb_cache (snd (get fs c p s)) k = Some t"
  using load_orig_thumb [of fs c p]
  by (cases "load_orig fs c p") (auto simp add: get_def Let_def split: option.splits sum.splits)

lemma after_calls_keeps_orig:
  "orig_cache c q = Some i \<Longrightarrow> orig_cache (after_calls ks c) q = Some i"
  by (induction ks arbitrary: c) (simp_all add: get_keeps_orig)

lemma after_calls_keeps_thumb:
  "thumb_cache c k = Some t \<Longrightarrow> thumb_cache (after_calls ks c) k = Some t"
  by (induction ks arbitrary: c) (simp_all add: get_keeps_thumb)

lemma get_returnedD:
  "get fs c p s = (Inr (Some bm), c1) \<Longrightarrow>
     thumb_cache c1 (cache_key p s) = Some bm \<and> (\<exists>img. orig_cache c1 p = Some img) \<and> p \<noteq> []"
  using load_orig_thumb [of fs c p] load_orig_SomeD [of fs c p]
  by (cases "load_orig fs c p")
     (auto simp add: get_def Let_def split: option.splits sum.splits)

lemma get_hit:
  "p \<noteq> [] \<Longrightarrow> fs p \<noteq> None \<Longrightarrow> orig_cache c p = Some img \<Longrightarrow>
   thumb_cache c (cache_key p s) = Some bm \<Longrightarrow> get fs c p s = (Inr (Some bm), c)"
  by (simp add: get_def load_orig_cached)

section \<open>Properties of the thumbnail computation\<close>

lemma round_aspect_bounds:
  assumes "0 < v" and "v \<le> rat_of_int b" and "1 \<le> b"
  shows "1 \<le> round_aspect v key \<and> round_aspect v key \<le> b \<and>
         \<bar>rat_of_int (round_aspect v key) - v\<bar> < 1"
proof -
  have c: "\<lceil>v\<rceil> \<le> b" using assms(2) by (simp add: ceiling_le)
  have f: "\<lfloor>v\<rfloor> \<le> b" using c by linarith
  have f0: "0 \<le> \<lfloor>v\<rfloor>" using assms(1) by simp
  have c1: "1 \<le> \<lceil>v\<rceil>" using assms(1) by (simp add: ceiling_le_iff Suc_le_eq less_ceiling_iff)
  have cd: "\<bar>rat_of_int \<lceil>v\<rceil> - v\<bar> < 1" by linarith
  have fd: "\<bar>rat_of_int (max \<lfloor>v\<rfloor> 1) - v\<bar> < 1"
  proof (cases "1 \<le> \<lfloor>v\<rfloor>")
    case True
    then have "max \<lfloor>v\<rfloor> 1 = \<lfloor>v\<rfloor>" by simp
    then show ?thesis by linarith
  next
    case False
    with f0 have z: "\<lfloor>v\<rfloor> = 0" by linarith
    then have "v < 1" by linarith
    with assms(1) z show ?thesis by simp
  qed
  show ?thesis
  proof (cases "key \<lceil>v\<rceil> < key \<lfloor>v\<rfloor>")
    case True
    then have "round_aspect v key = \<lceil>v\<rceil>" using c1 by (simp add: round_aspect_def)
    with c c1 cd show ?thesis by simp
  next
    case False
    then have "round_aspect v key = max \<lfloor>v\<rfloor> 1" by (simp add: round_aspect_def)
    with f fd assms(3) show ?thesis by simp
  qed
qed


lemma thumbnail_fits:
  "width im \<le> x \<Longrightarrow> height im \<le> y \<Longrightarrow> thumbnail (x, y) im = Inr im"
  by (simp add: thumbnail_def preserve_aspect_ratio_def)

lemma aspect_branch:
  assumes "0 < w" "0 < h" "0 < x" "0 < y"
  shows "(rat_of_int w / rat_of_int h \<le> rat_of_int x / rat_of_int y) = (w * y \<le> x * h)"
proof -
  have "(rat_of_int w / rat_of_int h \<le> rat_of_int x / rat_of_int y)
      = (rat_of_int w * rat_of_int y \<le> rat_of_int x * rat_of_int h)"
    using assms by (simp add: field_simps)
  also have "\<dots> = (rat_of_int (w * y) \<le> rat_of_int (x * h))" by simp
  also have "\<dots> = (w * y \<le> x * h)" by (rule of_int_le_iff)
  finally show ?thesis .
qed

lemma thumbnail_by_height:
  assumes pos: "0 < width im" "0 < height im" "0 < x" "0 < y"
    and big: "\<not> (width im \<le> x \<and> height im \<le> y)"
    and br: "width im * y \<le> x * height im"
  shows "\<exists>t. thumbnail (x, y) im = Inr t \<and> height t = y \<and> 1 \<le> width t \<and>
           width t \<le> x \<and> width t \<le> width im \<and> y \<le> height im \<and>
           \<bar>rat_of_int (width t) - rat_of_int y * rat_of_int (width im) / rat_of_int (height im)\<bar> < 1 \<and>
           (t = im \<or> data t = Lanczos (data im) (width t, height t))"
proof -
  define v where "v = rat_of_int y * (rat_of_int (width im) / rat_of_int (height im))"
  define key where "key = (\<lambda>n. \<bar>rat_of_int (width im) / rat_of_int (height im) - rat_of_int n / rat_of_int y\<bar>)"
  define n where "n = round_aspect v key"
  have yh: "y \<le> height im"
  proof (rule ccontr)
    assume "\<not> y \<le> height im"
    then have hy: "height im < y" by simp
    with big have xw: "x < width im" by simp
    have "x * height im < width im * height im" using xw pos(2) by simp
    also have "\<dots> < width im * y" using hy pos(1) by simp
    finally show False using br by simp
  qed
  have vpos: "0 < v" using pos by (simp add: v_def)
  have "rat_of_int (width im) * rat_of_int y \<le> rat_of_int x * rat_of_int (height im)"
    using br by (metis of_int_le_iff of_int_mult)
  then have vx: "v \<le> rat_of_int x" using pos by (simp add: v_def field_simps)
  have "rat_of_int y * rat_of_int (width im) \<le> rat_of_int (height im) * rat_of_int (width im)"
    using yh pos(1) by (simp add: mult_right_mono)
  then have vw: "v \<le> rat_of_int (width im)" using pos by (simp add: v_def field_simps)
  have bx: "1 \<le> n \<and> n \<le> x \<and> \<bar>rat_of_int n - v\<bar> < 1"
    unfolding n_def using round_aspect_bounds [OF vpos vx, of key] pos(3) by simp
  have bw: "n \<le> width im"
    unfolding n_def using round_aspect_bounds [OF vpos vw, of key] pos(1) by simp
  have par: "preserve_aspect_ratio (x, y) im = Inr (Some (n, y))"
    using pos big aspect_branch [OF pos] br
    by (auto simp add: preserve_aspect_ratio_def Let_def n_def v_def key_def)
  have veq: "v = rat_of_int y * rat_of_int (width im) / rat_of_int (height im)"
    by (simp add: v_def)
  show ?thesis
  proof (cases "(width im, height im) = (n, y)")
    case True
    then have "thumbnail (x, y) im = Inr im" using par by (simp add: thumbnail_def)
    with True bx bw yh veq show ?thesis by auto
  next
    case False
    then have "thumbnail (x, y) im = Inr \<lparr>width = n, height = y, data = Lanczos (data im) (n, y)\<rparr>"
      using par bx pos(4) by (auto simp add: thumbnail_def resize_def)
    with bx bw yh veq show ?thesis by simp
  qed
qed

lemma thumbnail_by_width:
  assumes pos: "0 < width im" "0 < height im" "0 < x" "0 < y"
    and big: "\<not> (width im \<le> x \<and> height im \<le> y)"
    and br: "\<not> width im * y \<le> x * height im"
  shows "\<exists>t. thumbnail (x, y) im = Inr t \<and> width t = x \<and> 1 \<le> height t \<and>
           height t \<le> y \<and> height t \<le> height im \<and> x \<le> width im \<and>
           \<bar>rat_of_int (height t) - rat_of_int x * rat_of_int (height im) / rat_of_int (width im)\<bar> < 1 \<and>
           (t = im \<or> data t = Lanczos (data im) (width t, height t))"
proof -
  define a where "a = rat_of_int (width im) / rat_of_int (height im)"
  define u where "u = rat_of_int x / a"
  define key where "key = (\<lambda>n. if n = 0 then 0 else \<bar>a - rat_of_int x / rat_of_int n\<bar>)"
  define m where "m = round_aspect u key"
  have apos: "0 < a" using pos by (simp add: a_def)
  have xw: "x \<le> width im"
  proof (rule ccontr)
    assume "\<not> x \<le> width im"
    then have wx: "width im < x" by simp
    with big have yh: "y < height im" by simp
    have "width im * y < width im * height im" using yh pos(1) by simp
    also have "\<dots> < x * height im" using wx pos(2) by simp
    finally show False using br by simp
  qed
  have ueq: "u = rat_of_int x * rat_of_int (height im) / rat_of_int (width im)"
    by (simp add: u_def a_def)
  have upos: "0 < u" using pos by (simp add: ueq)
  have "x * height im < width im * y" using br by simp
  then have "rat_of_int x * rat_of_int (height im) < rat_of_int (width im) * rat_of_int y"
    by (metis of_int_less_iff of_int_mult)
  then have uy: "u \<le> rat_of_int y" using pos by (simp add: ueq field_simps)
  have "rat_of_int x * rat_of_int (height im) \<le> rat_of_int (width im) * rat_of_int (height im)"
    using xw pos(2) by (simp add: mult_right_mono)
  then have uh: "u \<le> rat_of_int (height im)" using pos by (simp add: ueq field_simps)
  have by': "1 \<le> m \<and> m \<le> y \<and> \<bar>rat_of_int m - u\<bar> < 1"
    unfolding m_def using round_aspect_bounds [OF upos uy, of key] pos(4) by simp
  have bh: "m \<le> height im"
    unfolding m_def using round_aspect_bounds [OF upos uh, of key] pos(2) by simp
  have a0: "rat_of_int (width im) / rat_of_int (height im) \<noteq> 0" using pos by simp
  have par: "preserve_aspect_ratio (x, y) im = Inr (Some (x, m))"
    unfolding preserve_aspect_ratio_def m_def u_def key_def a_def Let_def fst_conv snd_conv
    using pos big aspect_branch [OF pos] br a0 by auto
  show ?thesis
  proof (cases "(width im, height im) = (x, m)")
    case True
    then have "thumbnail (x, y) im = Inr im" using par by (simp add: thumbnail_def)
    with True by' bh xw ueq show ?thesis by auto
  next
    case False
    then have "thumbnail (x, y) im = Inr \<lparr>width = x, height = m, data = Lanczos (data im) (x, m)\<rparr>"
      using par by' pos(3) by (auto simp add: thumbnail_def resize_def)
    with by' bh xw ueq show ?thesis by simp
  qed
qed

section \<open>The cache invariant\<close>

lemma get_thumb_origin:
  "thumb_cache (snd (get fs c p s)) k = Some t \<Longrightarrow>
     thumb_cache c k = Some t \<or>
     (k = cache_key p s \<and>
      (\<exists>orig img. orig_cache (snd (get fs c p s)) p = Some orig \<and>
         scaled_copy s orig = Inr img \<and> t = PhotoImage img))"
  using load_orig_thumb [of fs c p] load_orig_SomeD [of fs c p]
  by (cases "load_orig fs c p")
     (auto simp add: get_def Let_def split: option.splits sum.splits if_splits)

lemma cache_inv_get: "cache_inv c \<Longrightarrow> cache_inv (snd (get fs c p s))"
  unfolding cache_inv_def
proof (intro allI impI)
  fix k t
  assume inv: "\<forall>k t. thumb_cache c k = Some t \<longrightarrow>
        (\<exists>p s orig img. k = cache_key p s \<and> orig_cache c p = Some orig \<and>
           scaled_copy s orig = Inr img \<and> t = PhotoImage img)"
    and k: "thumb_cache (snd (get fs c p s)) k = Some t"
  from get_thumb_origin [OF k]
  show "\<exists>p' s' orig img. k = cache_key p' s' \<and> orig_cache (snd (get fs c p s)) p' = Some orig \<and>
           scaled_copy s' orig = Inr img \<and> t = PhotoImage img"
  proof
    assume "thumb_cache c k = Some t"
    with inv obtain p' s' orig img where
      "k = cache_key p' s'" "orig_cache c p' = Some orig" "scaled_copy s' orig = Inr img"
      "t = PhotoImage img" by blast
    then show ?thesis using get_keeps_orig [of c p' orig fs p s] by blast
  next
    assume "k = cache_key p s \<and>
      (\<exists>orig img. orig_cache (snd (get fs c p s)) p = Some orig \<and>
         scaled_copy s orig = Inr img \<and> t = PhotoImage img)"
    then show ?thesis by blast
  qed
qed

lemma cache_inv_init: "cache_inv init_cache"
  by (simp add: cache_inv_def init_cache_def)

lemma cache_inv_after_calls: "cache_inv c \<Longrightarrow> cache_inv (after_calls ks c)"
  by (induction ks arbitrary: c) (simp_all add: cache_inv_get)

lemma get_origin:
  "orig_cache (snd (get fs c p s)) q = Some i \<Longrightarrow>
     orig_cache c q = Some i \<or> (q = p \<and> fs p = Some (Picture i))"
  by (simp add: get_orig load_orig_origin)

lemma after_calls_origin:
  "orig_cache (after_calls ks c) q = Some i \<Longrightarrow>
     orig_cache c q = Some i \<or> (\<exists>k \<in> set ks. fst (snd k) = q \<and> fst k q = Some (Picture i))"
proof (induction ks arbitrary: c)
  case Nil
  then show ?case by simp
next
  case (Cons k ks)
  from Cons.prems have "orig_cache (after_calls ks (snd (get (fst k) c (fst (snd k)) (snd (snd k))))) q = Some i"
    by simp
  from Cons.IH [OF this] show ?case
  proof
    assume "orig_cache (snd (get (fst k) c (fst (snd k)) (snd (snd k)))) q = Some i"
    from get_origin [OF this] show ?thesis by auto
  next
    assume "\<exists>k \<in> set ks. fst (snd k) = q \<and> fst k q = Some (Picture i)"
    then show ?thesis by auto
  qed
qed

lemma get_result_scaled:
  assumes "cache_inv c" and "get fs c p s = (Inr (Some (PhotoImage t)), c')"
    and "orig_cache c' p = Some orig"
  shows "scaled_copy s orig = Inr t"
proof -
  have c': "c' = snd (get fs c p s)" using assms(2) by simp
  have "cache_inv c'" unfolding c' using assms(1) by (rule cache_inv_get)
  moreover have "thumb_cache c' (cache_key p s) = Some (PhotoImage t)"
    using get_returnedD [OF assms(2)] by simp
  ultimately obtain p' s' orig' img where
    k: "cache_key p s = cache_key p' s'" and o: "orig_cache c' p' = Some orig'"
    and sc: "scaled_copy s' orig' = Inr img" and t: "PhotoImage t = PhotoImage img"
    unfolding cache_inv_def by blast
  from cache_key_inj [OF k] have "p = p'" "s = s'" by simp_all
  with o assms(3) sc t show ?thesis by simp
qed

section \<open>Evaluations on the sample files\<close>

lemma get_small: "get fs_sample init_cache ''small.png'' (Some (220, 220)) =
     (Inr (Some (PhotoImage small_img)), cache_small)"
  by (simp add: get_def load_orig_def fs_sample_def init_cache_def cache_small_def
      scaled_copy_def thumbnail_def preserve_aspect_ratio_def small_img_def Let_def)

lemma get_wide: "get fs_sample init_cache ''wide.png'' (Some (220, 220)) =
     (Inr (Some (PhotoImage \<lparr>width = 220, height = 110, data = Lanczos (Decoded 1) (220, 110)\<rparr>)),
      cache_wide)"
  by (simp add: get_def load_orig_def fs_sample_def init_cache_def cache_wide_def
      scaled_copy_def thumbnail_def preserve_aspect_ratio_def wide_img_def round_aspect_def
      resize_def Let_def)

lemma get_sample: "get fs_sample init_cache ''images/sample_1.png'' (Some (220, 220)) =
     (Inr (Some (PhotoImage \<lparr>width = 220, height = 220, data = Lanczos (Decoded 0) (220, 220)\<rparr>)),
      cache_sample)"
  by (simp add: get_def load_orig_def fs_sample_def init_cache_def cache_sample_def
      scaled_copy_def thumbnail_def preserve_aspect_ratio_def sample_img_def round_aspect_def
      resize_def Let_def)

lemma within_pixel_cross:
  assumes "0 < d" and "\<bar>rat_of_int a - rat_of_int b * rat_of_int n / rat_of_int d\<bar> < 1"
  shows "\<bar>a * d - b * n\<bar> < d"
proof -
  have "rat_of_int a - rat_of_int b * rat_of_int n / rat_of_int d
      = (rat_of_int a * rat_of_int d - rat_of_int b * rat_of_int n) / rat_of_int d"
    using assms(1) by (simp add: field_simps)
  then have "\<bar>(rat_of_int a * rat_of_int d - rat_of_int b * rat_of_int n) / rat_of_int d\<bar> < 1"
    using assms(2) by simp
  then have "\<bar>rat_of_int a * rat_of_int d - rat_of_int b * rat_of_int n\<bar> < rat_of_int d"
    using assms(1) by (simp add: divide_less_eq)
  then have "rat_of_int \<bar>a * d - b * n\<bar> < rat_of_int d" by simp
  then show ?thesis by (simp only: of_int_less_iff)
qed

lemma get_thumbnail_of_orig:
  assumes "c = after_calls calls init_cache"
    and "get fs c path (Some sz) = (Inr (Some (PhotoImage t)), c')"
    and "orig_cache c' path = Some orig"
  shows "thumbnail sz orig = Inr t"
proof -
  have "cache_inv c" unfolding assms(1) using cache_inv_init by (rule cache_inv_after_calls)
  from get_result_scaled [OF this assms(2) assms(3)] show ?thesis by (simp add: scaled_copy_def)
qed

section \<open>Claims about the image cache\<close>

subsection \<open>C1: repeated requests\<close>

text \<open>
  Claim C1 says that once \<open>get\<close> has returned a bitmap for a path and a size, every
  later call with the same path and size returns that bitmap. As stated this fails: the
  existence test of \<open>_load_orig\<close> runs before either dictionary is consulted, so after
  the file is deleted the same call returns \<open>None\<close>, although the bitmap is still
  stored. Here the first call on \<open>small.png\<close> returns a bitmap and leaves the cache
  \<open>cache_small\<close>; the same call on that cache, with the file gone, returns \<open>None\<close>.
\<close>

theorem get_after_delete_counterexample:
  "get fs_sample init_cache ''small.png'' (Some (220, 220)) =
     (Inr (Some (PhotoImage small_img)), cache_small) \<and>
   get fs_deleted cache_small ''small.png'' (Some (220, 220)) = (Inr None, cache_small)"
  by (simp add: get_small) (simp add: get_def load_orig_def fs_deleted_def)

text \<open>
  Claim C1, amended: if a call \<open>get(path, size)\<close> returned a bitmap, then after any
  further calls to \<open>get\<close>, under any changes to the files, a call with the same path
  and size returns that same bitmap and leaves the cache as it is, provided the path
  still names an existing file at that moment. The file system \<open>fs'\<close> of the later call
  is arbitrary but for the existence of the path: the content of the file is not read
  again, so a change to it is not reflected.
\<close>

theorem get_repeat_while_file_exists:
  assumes "get fs c path sz = (Inr (Some bm), c1)"
    and "c2 = after_calls calls c1"
    and "fs' path \<noteq> None"
  shows "get fs' c2 path sz = (Inr (Some bm), c2)"
proof -
  from assms(1) obtain img where
    t: "thumb_cache c1 (cache_key path sz) = Some bm" and
    orig: "orig_cache c1 path = Some img" and ne: "path \<noteq> []"
    using get_returnedD by blast
  have "thumb_cache c2 (cache_key path sz) = Some bm"
    using t assms(2) by (simp add: after_calls_keeps_thumb)
  moreover have "orig_cache c2 path = Some img"
    using orig assms(2) by (simp add: after_calls_keeps_orig)
  ultimately show ?thesis using ne assms(3) by (simp add: get_hit)
qed

text \<open>
  The amended claim at a concrete input: \<open>small.png\<close> is requested, then another file,
  then the content of \<open>small.png\<close> is replaced by a different picture; the bitmap of the
  first call is returned.
\<close>

theorem get_repeat_while_file_exists_witness:
  "get fs_sample init_cache ''small.png'' (Some (220, 220)) =
     (Inr (Some (PhotoImage small_img)), cache_small) \<and>
   fs_changed ''small.png'' = Some (Picture sample_img) \<and>
   get fs_changed (after_calls [(fs_sample, ''notes.txt'', None)] cache_small) ''small.png''
       (Some (220, 220)) =
     (Inr (Some (PhotoImage small_img)), after_calls [(fs_sample, ''notes.txt'', None)] cache_small)"
  using get_repeat_while_file_exists [of fs_sample init_cache "''small.png''" "Some (220, 220)" "PhotoImage small_img"
      cache_small "after_calls [(fs_sample, ''notes.txt'', None)] cache_small"
      "[(fs_sample, ''notes.txt'', None)]" fs_changed]
  by (simp add: get_small fs_changed_def)

subsection \<open>C2: the dimensions of the returned bitmap\<close>

text \<open>
  Claim C2: for every decoded image and every positive size, the bitmap that
  \<open>get(path, size)\<close> returns has its longer dimension equal to the box dimension and its
  shorter dimension within the box, in the original's proportions. The comments of the
  code say the same (the long side is flush with the container; the image is resized to
  the size with contain behaviour). The code does not do this for an image that already
  fits the box: \<open>thumbnail\<close> returns early and the copy keeps its size. A 100 x 50
  picture requested at 220 x 220 comes back 100 x 50; its longer dimension is 100, not
  220.
\<close>

theorem get_small_image_not_enlarged:
  "fs_sample ''small.png'' = Some (Picture small_img) \<and>
   get fs_sample init_cache ''small.png'' (Some (220, 220)) =
     (Inr (Some (PhotoImage small_img)), cache_small) \<and>
   width small_img = 100 \<and> height small_img = 50 \<and>
   max (width small_img) (height small_img) < 220"
  by (simp add: get_small) (simp add: fs_sample_def small_img_def)

text \<open>
  Where the original is wider or taller than the box, \<open>get\<close> does what C2 says. Let the
  cache be one that calls to \<open>get\<close> have built from the empty cache, let
  \<open>get(path, (x, y))\<close> return a bitmap \<open>t\<close>, and let \<open>orig\<close> be the decoded original held
  for the path, with positive width and height, \<open>x\<close> and \<open>y\<close> positive, and \<open>orig\<close> wider
  or taller than the box. Then the bitmap fits the box, the dimension that limits the
  fit equals the box dimension exactly (the height when \<open>width * y \<le> x * height\<close>, the
  width otherwise), and the other dimension is within one pixel of the proportional
  value; for a square box, which is what the application passes, the exact dimension is
  the original's longer one. The aspect ratio is computed here in exact arithmetic.
\<close>

lemma get_longer_side_when_larger:
  assumes "c = after_calls calls init_cache"
    and "get fs c path (Some (x, y)) = (Inr (Some (PhotoImage t)), c')"
    and "orig_cache c' path = Some orig"
    and "0 < width orig" and "0 < height orig" and "0 < x" and "0 < y"
    and big: "\<not> (width orig \<le> x \<and> height orig \<le> y)"
  shows "width t \<le> x \<and> height t \<le> y \<and>
         (if width orig * y \<le> x * height orig
          then height t = y \<and>
               \<bar>rat_of_int (width t) -
                 rat_of_int y * rat_of_int (width orig) / rat_of_int (height orig)\<bar> < 1
          else width t = x \<and>
               \<bar>rat_of_int (height t) -
                 rat_of_int x * rat_of_int (height orig) / rat_of_int (width orig)\<bar> < 1) \<and>
         (x = y \<longrightarrow> (if height orig \<le> width orig then width t = x else height t = y))"
proof -
  have th: "thumbnail (x, y) orig = Inr t"
    using assms(1,2,3) by (rule get_thumbnail_of_orig)
  show ?thesis
  proof (cases "width orig * y \<le> x * height orig")
    case True
    from thumbnail_by_height [OF assms(4-7) big True] th
    have h: "height t = y" and wx: "width t \<le> x" and w1: "1 \<le> width t"
      and d: "\<bar>rat_of_int (width t) -
                  rat_of_int y * rat_of_int (width orig) / rat_of_int (height orig)\<bar> < 1"
      by auto
    have sq: "x = y \<Longrightarrow> height orig \<le> width orig \<Longrightarrow> width t = x"
    proof -
      assume e: "x = y" and hw: "height orig \<le> width orig"
      with True assms(7) have "width orig = height orig" by simp
      with d assms(5) have "\<bar>rat_of_int (width t) - rat_of_int y\<bar> < 1" by simp
      then have "\<bar>rat_of_int (width t - y)\<bar> < 1" by simp
      then have "\<bar>width t - y\<bar> < 1" by (metis of_int_abs of_int_less_1_iff)
      with e show "width t = x" by simp
    qed
    from True h wx d sq show ?thesis by auto
  next
    case False
    from thumbnail_by_width [OF assms(4-7) big False] th
    have w: "width t = x" and hy: "height t \<le> y"
      and d: "\<bar>rat_of_int (height t) -
                  rat_of_int x * rat_of_int (height orig) / rat_of_int (width orig)\<bar> < 1"
      by auto
    have sq: "x = y \<Longrightarrow> height orig \<le> width orig"
    proof -
      assume "x = y"
      with False have "\<not> width orig * x \<le> x * height orig" by simp
      with assms(6) show ?thesis by (simp add: mult.commute)
    qed
    from False w hy d sq show ?thesis by auto
  qed
qed

text \<open>
  At a concrete input: a 256 x 128 picture requested at 220 x 220 gives a 220 x 110
  bitmap.
\<close>

lemma get_longer_side_when_larger_example:
  "init_cache = after_calls [] init_cache \<and>
   get fs_sample init_cache ''wide.png'' (Some (220, 220)) =
     (Inr (Some (PhotoImage \<lparr>width = 220, height = 110, data = Lanczos (Decoded 1) (220, 110)\<rparr>)),
      cache_wide) \<and>
   orig_cache cache_wide ''wide.png'' = Some wide_img \<and>
   0 < width wide_img \<and> 0 < height wide_img \<and>
   \<not> (width wide_img \<le> 220 \<and> height wide_img \<le> 220) \<and>
   height wide_img \<le> width wide_img \<and>
   width \<lparr>width = 220, height = 110, data = Lanczos (Decoded 1) (220, 110)\<rparr> = 220 \<and>
   height \<lparr>width = 220, height = 110, data = Lanczos (Decoded 1) (220, 110)\<rparr> \<le> 220"
  using get_longer_side_when_larger [where c = init_cache and calls = "[]" and fs = fs_sample
      and path = "''wide.png''" and x = 220 and y = 220 and c' = cache_wide and orig = wide_img
      and t = "\<lparr>width = 220, height = 110, data = Lanczos (Decoded 1) (220, 110)\<rparr>"]
    get_wide
  by (simp add: cache_wide_def wide_img_def)

subsection \<open>C3: shrinking only, and no padding\<close>

text \<open>
  Claim C3 says that the scaling of \<open>get\<close> fills the remainder of the box along the
  shorter dimension with transparent padding. As stated this fails: \<open>thumbnail\<close> only
  resizes, and the bitmap has the scaled dimensions, not the box's. A 256 x 128 picture
  requested at 220 x 220 gives a bitmap of 220 x 110, not of 220 x 220; the rest of the
  box is left to the caller's layout.
\<close>

theorem get_not_padded_counterexample:
  "get fs_sample init_cache ''wide.png'' (Some (220, 220)) =
     (Inr (Some (PhotoImage \<lparr>width = 220, height = 110, data = Lanczos (Decoded 1) (220, 110)\<rparr>)),
      cache_wide) \<and>
   (width \<lparr>width = 220, height = 110, data = Lanczos (Decoded 1) (220, 110)\<rparr>,
    height \<lparr>width = 220, height = 110, data = Lanczos (Decoded 1) (220, 110)\<rparr>) \<noteq> (220, 220)"
  by (simp add: get_wide)

text \<open>
  Claim C3, amended. Under the conditions of C2, the returned bitmap is never larger than
  the original in either dimension, has at least one pixel in each dimension, fits the
  box, keeps the original's proportions up to the rounding of one dimension to whole
  pixels (\<open>\<bar>w' * h - h' * w\<bar> < max w h\<close>), and is either the original itself or the
  whole original resampled to the bitmap's own dimensions: nothing is cropped and no
  padding is added.
\<close>

theorem get_never_enlarges:
  assumes "c = after_calls calls init_cache"
    and "get fs c path (Some (x, y)) = (Inr (Some (PhotoImage t)), c')"
    and "orig_cache c' path = Some orig"
    and "0 < width orig" and "0 < height orig" and "0 < x" and "0 < y"
  shows "1 \<le> width t \<and> 1 \<le> height t \<and>
         width t \<le> width orig \<and> height t \<le> height orig \<and>
         width t \<le> x \<and> height t \<le> y \<and>
         \<bar>width t * height orig - height t * width orig\<bar> < max (width orig) (height orig) \<and>
         (t = orig \<or> data t = Lanczos (data orig) (width t, height t))"
proof -
  have th: "thumbnail (x, y) orig = Inr t"
    using assms(1,2,3) by (rule get_thumbnail_of_orig)
  show ?thesis
  proof (cases "width orig \<le> x \<and> height orig \<le> y")
    case True
    with th have "t = orig" by (simp add: thumbnail_fits)
    with True assms(4,5) show ?thesis by simp
  next
    case big: False
    show ?thesis
    proof (cases "width orig * y \<le> x * height orig")
      case True
      from thumbnail_by_height [OF assms(4-7) big True] th
      have f: "height t = y" "1 \<le> width t" "width t \<le> x" "width t \<le> width orig"
        "y \<le> height orig" "t = orig \<or> data t = Lanczos (data orig) (width t, height t)"
        and d: "\<bar>rat_of_int (width t) -
                    rat_of_int y * rat_of_int (width orig) / rat_of_int (height orig)\<bar> < 1"
        by auto
      from within_pixel_cross [OF assms(5) d]
      have "\<bar>width t * height orig - height t * width orig\<bar> < height orig" using f(1) by simp
      with f assms(7) show ?thesis by simp
    next
      case False
      from thumbnail_by_width [OF assms(4-7) big False] th
      have f: "width t = x" "1 \<le> height t" "height t \<le> y" "height t \<le> height orig"
        "x \<le> width orig" "t = orig \<or> data t = Lanczos (data orig) (width t, height t)"
        and d: "\<bar>rat_of_int (height t) -
                    rat_of_int x * rat_of_int (height orig) / rat_of_int (width orig)\<bar> < 1"
        by auto
      from within_pixel_cross [OF assms(4) d]
      have "\<bar>height t * width orig - width t * height orig\<bar> < width orig" using f(1) by simp
      then have "\<bar>width t * height orig - height t * width orig\<bar> < width orig"
        by (simp add: abs_minus_commute)
      with f assms(6) show ?thesis by simp
    qed
  qed
qed

text \<open>
  The amended claim at a concrete input: a 256 x 256 sample picture requested at
  220 x 220 gives the whole picture resampled to 220 x 220.
\<close>

theorem get_never_enlarges_witness:
  "init_cache = after_calls [] init_cache \<and>
   get fs_sample init_cache ''images/sample_1.png'' (Some (220, 220)) =
     (Inr (Some (PhotoImage \<lparr>width = 220, height = 220, data = Lanczos (Decoded 0) (220, 220)\<rparr>)),
      cache_sample) \<and>
   orig_cache cache_sample ''images/sample_1.png'' = Some sample_img \<and>
   width sample_img = 256 \<and> height sample_img = 256 \<and>
   data \<lparr>width = 220, height = 220, data = Lanczos (Decoded 0) (220, 220)\<rparr> =
     Lanczos (data sample_img) (220, 220)"
  using get_never_enlarges [where c = init_cache and calls = "[]" and fs = fs_sample
      and path = "''images/sample_1.png''" and x = 220 and y = 220 and c' = cache_sample
      and orig = sample_img
      and t = "\<lparr>width = 220, height = 220, data = Lanczos (Decoded 0) (220, 220)\<rparr>"]
    get_sample
  by (simp add: cache_sample_def sample_img_def)

subsection \<open>C4: absent results\<close>

text \<open>
  Claim C4: for an empty path, for a path that names no existing file, and for an
  existing file whose decoding is attempted and raises, \<open>get\<close> and \<open>_load_orig\<close>
  return \<open>None\<close>, raise nothing and leave the cache as it is, whatever the size
  argument. (Decoding is attempted when the path has no entry in the original
  dictionary.)
\<close>

theorem get_absent:
  "path = [] \<or> fs path = None \<or> (fs path = Some Undecodable \<and> orig_cache c path = None) \<Longrightarrow>
     get fs c path sz = (Inr None, c) \<and> load_orig fs c path = (None, c)"
  by (auto simp add: get_def load_orig_def)

text \<open>
  C4 at a concrete input: a file that exists but is no picture.
\<close>

theorem get_absent_witness:
  "fs_sample ''notes.txt'' = Some Undecodable \<and> orig_cache init_cache ''notes.txt'' = None \<and>
   get fs_sample init_cache ''notes.txt'' (Some (220, 220)) = (Inr None, init_cache) \<and>
   load_orig fs_sample init_cache ''notes.txt'' = (None, init_cache)"
  using get_absent [of "''notes.txt''" fs_sample init_cache "Some (220, 220)"]
  by (simp add: fs_sample_def init_cache_def)

subsection \<open>C5: the two dictionaries\<close>

text \<open>
  Claim C5: in every cache that calls to \<open>get\<close> have built from the empty cache, a
  thumbnail entry for a path exists only if the original dictionary holds an image for
  that path, and that image was decoded from the file in one of the calls. A decoding
  that fails stores nothing in either dictionary, and the next request for the path
  decodes again: if the file is a picture by then, that picture is returned.
\<close>

theorem thumb_only_after_decode:
  assumes "c = after_calls calls init_cache"
  shows "(\<forall>path sz. thumb_cache c (cache_key path sz) \<noteq> None \<longrightarrow>
            (\<exists>img. orig_cache c path = Some img \<and>
               (\<exists>k \<in> set calls. fst (snd k) = path \<and> fst k path = Some (Picture img)))) \<and>
         (\<forall>fs path sz. fs path = Some Undecodable \<and> orig_cache c path = None \<longrightarrow>
            get fs c path sz = (Inr None, c) \<and>
            (\<forall>fs' img. path \<noteq> [] \<and> fs' path = Some (Picture img) \<longrightarrow>
               fst (load_orig fs' (snd (get fs c path sz)) path) = Some img))"
proof (intro conjI allI impI)
  fix path sz
  assume "thumb_cache c (cache_key path sz) \<noteq> None"
  then obtain t where t: "thumb_cache c (cache_key path sz) = Some t" by blast
  have "cache_inv c" unfolding assms using cache_inv_init by (rule cache_inv_after_calls)
  with t obtain p s orig where k: "cache_key path sz = cache_key p s"
    and o: "orig_cache c p = Some orig"
    unfolding cache_inv_def by blast
  from cache_key_inj [OF k] have "path = p" by simp
  with o have o': "orig_cache c path = Some orig" by simp
  then have "orig_cache init_cache path = Some orig \<or>
    (\<exists>k \<in> set calls. fst (snd k) = path \<and> fst k path = Some (Picture orig))"
    unfolding assms by (rule after_calls_origin)
  then have "\<exists>k \<in> set calls. fst (snd k) = path \<and> fst k path = Some (Picture orig)"
    by (simp add: init_cache_def)
  with o' show "\<exists>img. orig_cache c path = Some img \<and>
               (\<exists>k \<in> set calls. fst (snd k) = path \<and> fst k path = Some (Picture img))"
    by blast
next
  fix fs path sz
  assume "fs path = Some Undecodable \<and> orig_cache c path = None"
  then show "get fs c path sz = (Inr None, c)" by (simp add: get_def load_orig_def)
next
  fix fs path sz fs' img
  assume a: "fs path = Some Undecodable \<and> orig_cache c path = None"
    and b: "path \<noteq> [] \<and> fs' path = Some (Picture img)"
  from a have "get fs c path sz = (Inr None, c)" by (simp add: get_def load_orig_def)
  with a b show "fst (load_orig fs' (snd (get fs c path sz)) path) = Some img"
    by (simp add: load_orig_def)
qed

text \<open>
  C5 at a concrete input: the cache after one request for \<open>small.png\<close>, and a file
  that cannot be decoded at first and can later.
\<close>

theorem thumb_only_after_decode_witness:
  "cache_small = after_calls [(fs_sample, ''small.png'', Some (220, 220))] init_cache \<and>
   thumb_cache cache_small (cache_key ''small.png'' (Some (220, 220))) \<noteq> None \<and>
   (\<exists>img. orig_cache cache_small ''small.png'' = Some img \<and>
      (\<exists>k \<in> set [(fs_sample, ''small.png'', Some (220, 220)) :: call].
         fst (snd k) = ''small.png'' \<and> fst k ''small.png'' = Some (Picture img))) \<and>
   fs_sample ''notes.txt'' = Some Undecodable \<and> orig_cache cache_small ''notes.txt'' = None \<and>
   get fs_sample cache_small ''notes.txt'' None = (Inr None, cache_small) \<and>
   fs_repaired ''notes.txt'' = Some (Picture sample_img) \<and>
   fst (load_orig fs_repaired (snd (get fs_sample cache_small ''notes.txt'' None)) ''notes.txt'') =
     Some sample_img"
proof -
  have c: "cache_small = after_calls [(fs_sample, ''small.png'', Some (220, 220))] init_cache"
    by (simp add: get_small)
  note th = thumb_only_after_decode [OF c]
  have k: "thumb_cache cache_small (cache_key ''small.png'' (Some (220, 220))) \<noteq> None"
    by (simp add: cache_small_def)
  note 1 = th [THEN conjunct1, rule_format, of "''small.png''" "Some (220, 220)", OF k]
  have u: "fs_sample ''notes.txt'' = Some Undecodable \<and> orig_cache cache_small ''notes.txt'' = None"
    by (simp add: fs_sample_def cache_small_def)
  note r = th [THEN conjunct2, rule_format, of fs_sample "''notes.txt''" None, OF u]
  note 2 = r [THEN conjunct1]
  have f: "''notes.txt'' \<noteq> [] \<and> fs_repaired ''notes.txt'' = Some (Picture sample_img)"
    by (simp add: fs_repaired_def)
  note 3 = r [THEN conjunct2, rule_format, of fs_repaired sample_img, OF f]
  from c k 1 u 2 f 3 show ?thesis by (elim conjE) (intro conjI; assumption)
qed

subsection \<open>C10: the existence test comes first\<close>

text \<open>
  Claim C10: \<open>_load_orig\<close> tests the existence of the file before it consults the
  original dictionary, so for a path that names no file \<open>get\<close> returns \<open>None\<close> and
  leaves the cache as it is, whatever the cache holds for that path.
\<close>

theorem get_rechecks_existence:
  "fs path = None \<Longrightarrow> get fs c path sz = (Inr None, c) \<and> load_orig fs c path = (None, c)"
  by (simp add: get_def load_orig_def)

text \<open>
  C10 at a concrete input: the original and a thumbnail of \<open>small.png\<close> are cached
  and the file has been deleted.
\<close>

theorem get_rechecks_existence_witness:
  "fs_deleted ''small.png'' = None \<and>
   orig_cache cache_small ''small.png'' = Some small_img \<and>
   thumb_cache cache_small (cache_key ''small.png'' (Some (220, 220))) = Some (PhotoImage small_img) \<and>
   get fs_deleted cache_small ''small.png'' (Some (220, 220)) = (Inr None, cache_small) \<and>
   load_orig fs_deleted cache_small ''small.png'' = (None, cache_small)"
  using get_rechecks_existence [of fs_deleted "''small.png''" cache_small "Some (220, 220)"]
  by (simp add: fs_deleted_def cache_small_def)

section \<open>Properties of the option loader\<close>

lemma load_read_error:
  "rd path = Inl e \<Longrightarrow>
   load_options_file py rd fs s path =
     (None, s\<lparr>dialogs := dialogs s @ [ShowError ''Load Options Failed'' path e]\<rparr>)"
  by (simp add: load_options_file_def)

lemma load_parse_error:
  "rd path = Inr raw \<Longrightarrow> parse_options py raw = Inl e \<Longrightarrow>
   load_options_file py rd fs s path =
     (None, s\<lparr>dialogs := dialogs s @ [ShowError ''Invalid Options Format'' path e]\<rparr>)"
  by (simp add: load_options_file_def)

lemma load_success_fields:
  assumes "rd path = Inr raw" and "parse_options py raw = Inr opts"
  shows "options (snd (load_options_file py rd fs s path)) = opts \<and>
         option_names (snd (load_options_file py rd fs s path)) = map name opts \<and>
         name_to_option (snd (load_options_file py rd fs s path)) = index_by_name opts \<and>
         dialogs (snd (load_options_file py rd fs s path)) = dialogs s"
  using assms
  by (simp add: load_options_file_def Let_def split: prod.splits option.splits)

lemma build_options_Inr:
  "build_options py items acc = Inr opts \<Longrightarrow>
     \<exists>new. opts = acc @ new \<and> map (make_option py) items = map Inr new"
proof (induction items arbitrary: acc)
  case Nil
  then show ?case by simp
next
  case (Cons item rest)
  from Cons.prems obtain opt where m: "make_option py item = Inr opt"
    and b: "build_options py rest (acc @ [opt]) = Inr opts"
    by (auto split: sum.splits)
  from Cons.IH [OF b] obtain new where "opts = (acc @ [opt]) @ new"
    "map (make_option py) rest = map Inr new" by blast
  with m have "opts = acc @ (opt # new) \<and> map (make_option py) (item # rest) = map Inr (opt # new)"
    by simp
  then show ?case by blast
qed

lemma build_options_Inl:
  "(\<exists>e. build_options py items acc = Inl e) =
     (\<exists>item \<in> set items. \<exists>e. make_option py item = Inl e)"
proof (induction items arbitrary: acc)
  case Nil
  then show ?case by simp
next
  case (Cons item rest)
  show ?case
  proof (cases "make_option py item")
    case (Inl e)
    then show ?thesis by auto
  next
    case (Inr opt)
    then show ?thesis using Cons.IH [of "acc @ [opt]"] by simp
  qed
qed

lemma make_option_Inl:
  "(\<exists>e. make_option py item = Inl e) =
     (case item of JObj kvs \<Rightarrow> (\<exists>e. py_int py (dict_get kvs ''id'') = Inl e) | _ \<Rightarrow> True)"
  by (cases item) (auto simp add: make_option_def split: sum.splits)

lemma parse_options_Inl:
  "(\<exists>e. parse_options py raw = Inl e) =
     (case py_iter raw of
        Inl e \<Rightarrow> True
      | Inr items \<Rightarrow> (\<exists>item \<in> set items. \<exists>e. make_option py item = Inl e))"
  using build_options_Inl [of py _ "[]"]
  by (cases "py_iter raw") (simp_all add: parse_options_def)

lemma parse_options_Inr:
  "py_iter raw = Inr items \<Longrightarrow> parse_options py raw = Inr opts \<Longrightarrow>
     map (make_option py) items = map Inr opts"
  using build_options_Inr [of py items "[]" opts] by (simp add: parse_options_def)

lemma index_by_name_snoc:
  "index_by_name (opts @ [opt]) = (index_by_name opts)(name opt \<mapsto> opt)"
  by (simp add: index_by_name_def)

lemma index_by_name_last:
  "index_by_name opts n =
     (if n \<in> set (map name opts) then Some (last (filter (\<lambda>opt. name opt = n) opts)) else None)"
proof (induction opts rule: rev_induct)
  case Nil
  then show ?case by (simp add: index_by_name_def)
next
  case (snoc opt opts)
  then show ?case by (simp add: index_by_name_snoc)
qed

lemma load_cells_result:
  "load_cells fs idx names c cls = (None, c', cls') \<Longrightarrow>
     length cls' = length cls \<and>
     (\<forall>i < length cls.
        combo_values (cls' ! i) = names \<and>
        (name_var (cls ! i) \<notin> set names \<longrightarrow>
           name_var (cls' ! i) = [] \<and> (idx [] = None \<longrightarrow> img_label (cls' ! i) = None)))"
proof (induction cls arbitrary: c c' cls')
  case Nil
  then show ?case by simp
next
  case (Cons cl rest)
  define cl2 where "cl2 = (if name_var cl \<notin> set names
      then cl\<lparr>combo_values := names, name_var := []\<rparr> else cl\<lparr>combo_values := names\<rparr>)"
  from Cons.prems obtain cl3 c1 rest' where
    r: "refresh_cell_image fs idx c cl2 = (Inr cl3, c1)" and
    l: "load_cells fs idx names c1 rest = (None, c', rest')" and
    e: "cls' = cl3 # rest'"
    by (auto simp add: Let_def cl2_def split: prod.splits sum.splits if_splits)
  from r have cl3: "combo_values cl3 = names \<and> name_var cl3 = name_var cl2 \<and>
      (idx (name_var cl2) = None \<longrightarrow> img_label cl3 = None)"
    by (auto simp add: refresh_cell_image_def cl2_def split: option.splits prod.splits sum.splits if_splits)
  have h: "combo_values cl3 = names \<and>
        (name_var cl \<notin> set names \<longrightarrow>
           name_var cl3 = [] \<and> (idx [] = None \<longrightarrow> img_label cl3 = None))"
    using cl3 by (auto simp add: cl2_def)
  from Cons.IH [OF l] have ih: "length rest' = length rest \<and>
     (\<forall>i < length rest.
        combo_values (rest' ! i) = names \<and>
        (name_var (rest ! i) \<notin> set names \<longrightarrow>
           name_var (rest' ! i) = [] \<and> (idx [] = None \<longrightarrow> img_label (rest' ! i) = None)))" .
  show ?case
  proof (intro conjI allI impI)
    show "length cls' = length (cl # rest)" using e ih by simp
  next
    fix i assume "i < length (cl # rest)"
    then show "combo_values (cls' ! i) = names" using e h ih by (cases i) simp_all
  next
    fix i assume "i < length (cl # rest)" "name_var ((cl # rest) ! i) \<notin> set names"
    then show "name_var (cls' ! i) = []" using e h ih by (cases i) simp_all
  next
    fix i assume "i < length (cl # rest)" "name_var ((cl # rest) ! i) \<notin> set names" "idx [] = None"
    then show "img_label (cls' ! i) = None" using e h ih by (cases i) simp_all
  qed
qed

lemma load_success_cells:
  assumes "rd path = Inr raw" and "parse_options py raw = Inr opts"
    and "load_options_file py rd fs s path = (None, s')"
  shows "load_cells fs (index_by_name opts) (map name opts) (image_cache s) (cells s) =
           (None, image_cache s', cells s')"
  using assms
  by (auto simp add: load_options_file_def Let_def split: prod.splits option.splits)

subsection \<open>Evaluations on the sample configurations\<close>

lemma parse_B: "parse_options py0 json_B = Inr [option_B]"
  by (simp add: parse_options_def py_iter_def json_B_def make_option_def py_int_def py_str_def
      dict_get_def option_B_def)

lemma parse_no_name:
  "parse_options py0 json_no_name = Inr [\<lparr>id' = 1, name = ''None'', image_path = ''small.png''\<rparr>]"
  by (simp add: parse_options_def py_iter_def json_no_name_def make_option_def py_int_def
      py_str_def dict_get_def)

lemma parse_no_id: "parse_options py0 json_no_id = Inl TypeError"
  by (simp add: parse_options_def py_iter_def json_no_id_def make_option_def py_int_def
      py_str_def dict_get_def)

lemma parse_dup: "parse_options py0 json_dup = Inr [option_A, option_A2]"
  by (simp add: parse_options_def py_iter_def json_dup_def make_option_def py_int_def py_str_def
      dict_get_def option_A_def option_A2_def)

lemma load_B: "load_options_file py0 (rd_file json_B) fs_sample app_A ''options.json'' = (None, app_B)"
  by (simp add: load_options_file_def rd_file_def parse_B Let_def app_A_def app_B_def
      index_by_name_def option_B_def cell_A_def idle_cell_def refresh_cell_image_def)

lemma load_no_name_fst:
  "fst (load_options_file py0 (rd_file json_no_name) fs_sample app0 ''options.json'') = None"
  by (simp add: load_options_file_def rd_file_def parse_no_name Let_def app0_def
      index_by_name_def blank_cell_def refresh_cell_image_def)

section \<open>Claims about the option loader and the cells\<close>

subsection \<open>C6: a failed load changes nothing\<close>

text \<open>
  Claim C6: when loading fails, because the file cannot be read or parsed or because the
  coercion of some element raises, \<open>load_options_file\<close> returns normally, leaves the
  option list, the option names, the name index, the nine cells, the image cache and
  the status line as they were, and shows one error dialog that carries the path and
  the exception. When loading succeeds, every element of the file has been coerced and
  the option list, the names and the index are replaced by the result as a whole; no
  dialog is shown.
\<close>

theorem load_failure_keeps_state:
  assumes "s' = snd (load_options_file py rd fs s path)"
  shows "(rd path = Inl e \<or> (\<exists>raw. rd path = Inr raw \<and> parse_options py raw = Inl e) \<longrightarrow>
            fst (load_options_file py rd fs s path) = None \<and>
            options s' = options s \<and> option_names s' = option_names s \<and>
            name_to_option s' = name_to_option s \<and> cells s' = cells s \<and>
            image_cache s' = image_cache s \<and> status_var s' = status_var s \<and>
            (\<exists>title. dialogs s' = dialogs s @ [ShowError title path e])) \<and>
         (rd path = Inr raw \<and> py_iter raw = Inr items \<and> parse_options py raw = Inr opts \<longrightarrow>
            map (make_option py) items = map Inr opts \<and>
            options s' = opts \<and> option_names s' = map name opts \<and>
            name_to_option s' = index_by_name opts \<and> dialogs s' = dialogs s)"
proof (rule conjI; rule impI)
  assume "rd path = Inl e \<or> (\<exists>raw. rd path = Inr raw \<and> parse_options py raw = Inl e)"
  then have "\<exists>title. load_options_file py rd fs s path =
      (None, s\<lparr>dialogs := dialogs s @ [ShowError title path e]\<rparr>)"
    using load_read_error [of rd path e py fs s] load_parse_error [of rd path _ py e fs s]
    by blast
  then obtain title where l: "load_options_file py rd fs s path =
      (None, s\<lparr>dialogs := dialogs s @ [ShowError title path e]\<rparr>)" ..
  then have s': "s' = s\<lparr>dialogs := dialogs s @ [ShowError title path e]\<rparr>"
    using assms by simp
  show "fst (load_options_file py rd fs s path) = None \<and>
            options s' = options s \<and> option_names s' = option_names s \<and>
            name_to_option s' = name_to_option s \<and> cells s' = cells s \<and>
            image_cache s' = image_cache s \<and> status_var s' = status_var s \<and>
            (\<exists>title. dialogs s' = dialogs s @ [ShowError title path e])"
    using l s' by simp
next
  assume a: "rd path = Inr raw \<and> py_iter raw = Inr items \<and> parse_options py raw = Inr opts"
  then have "map (make_option py) items = map Inr opts"
    using parse_options_Inr [of raw items py opts] by simp
  moreover from a have "options s' = opts \<and> option_names s' = map name opts \<and>
            name_to_option s' = index_by_name opts \<and> dialogs s' = dialogs s"
    unfolding assms using load_success_fields [of rd path raw py opts fs s] by simp
  ultimately show "map (make_option py) items = map Inr opts \<and>
            options s' = opts \<and> option_names s' = map name opts \<and>
            name_to_option s' = index_by_name opts \<and> dialogs s' = dialogs s" by simp
qed

text \<open>
  C6 at concrete inputs: a file whose only element lacks the id, loaded over a state
  with an option selected, and a well-formed file loaded over the same state.
\<close>

theorem load_failure_keeps_state_witness:
  "rd_file json_no_id ''options.json'' = Inr json_no_id \<and>
   parse_options py0 json_no_id = Inl TypeError \<and>
   fst (load_options_file py0 (rd_file json_no_id) fs_sample app_A ''options.json'') = None \<and>
   options (snd (load_options_file py0 (rd_file json_no_id) fs_sample app_A ''options.json'')) =
     options app_A \<and>
   name_to_option (snd (load_options_file py0 (rd_file json_no_id) fs_sample app_A ''options.json'')) =
     name_to_option app_A \<and>
   cells (snd (load_options_file py0 (rd_file json_no_id) fs_sample app_A ''options.json'')) =
     cells app_A \<and>
   (\<exists>title. dialogs (snd (load_options_file py0 (rd_file json_no_id) fs_sample app_A ''options.json'')) =
     dialogs app_A @ [ShowError title ''options.json'' TypeError]) \<and>
   rd_file json_B ''options.json'' = Inr json_B \<and>
   parse_options py0 json_B = Inr [option_B] \<and>
   options (snd (load_options_file py0 (rd_file json_B) fs_sample app_A ''options.json'')) =
     [option_B] \<and>
   dialogs (snd (load_options_file py0 (rd_file json_B) fs_sample app_A ''options.json'')) =
     dialogs app_A"
proof -
  have r: "rd_file json_no_id ''options.json'' = Inr json_no_id" by (simp add: rd_file_def)
  then have h: "rd_file json_no_id ''options.json'' = Inl TypeError \<or>
    (\<exists>raw. rd_file json_no_id ''options.json'' = Inr raw \<and> parse_options py0 raw = Inl TypeError)"
    using parse_no_id by simp
  note th = load_failure_keeps_state [OF refl, of "rd_file json_no_id" "''options.json''"
      TypeError py0 fs_sample app_A, THEN conjunct1, rule_format, OF h]
  have rb: "rd_file json_B ''options.json'' = Inr json_B" by (simp add: rd_file_def)
  have ib: "py_iter json_B =
      Inr [JObj [(''id'', JInt 1), (''name'', JStr ''B''), (''image'', JStr ''wide.png'')]]"
    by (simp add: py_iter_def json_B_def)
  have hb: "rd_file json_B ''options.json'' = Inr json_B \<and>
      py_iter json_B =
        Inr [JObj [(''id'', JInt 1), (''name'', JStr ''B''), (''image'', JStr ''wide.png'')]] \<and>
      parse_options py0 json_B = Inr [option_B]"
    using rb ib parse_B by simp
  note tb = load_failure_keeps_state [OF refl, where rd = "rd_file json_B"
      and path = "''options.json''" and py = py0 and fs = fs_sample and s = app_A
      and raw = json_B and opts = "[option_B]", THEN conjunct2, rule_format, OF hb]
  from r parse_no_id th rb parse_B tb show ?thesis by (elim conjE) (intro conjI; assumption)
qed

subsection \<open>C7: which files fail the coercion\<close>

text \<open>
  Claim C7 says that an element with a missing field, the name or the image as well as
  the id, makes the load fail. As stated this fails for the name and the image:
  \<open>item.get\<close> gives \<open>None\<close> for a missing key and \<open>str(None)\<close> is the text
  \<open>None\<close>, so the load succeeds. Here a file whose only element has an id and an image
  but no name is loaded over the initial state: no dialog is shown, and the option list
  holds one option, named \<open>None\<close>.
\<close>

theorem missing_name_counterexample:
  "rd_file json_no_name ''options.json'' = Inr json_no_name \<and>
   json_no_name = JArr [JObj [(''id'', JInt 1), (''image'', JStr ''small.png'')]] \<and>
   fst (load_options_file py0 (rd_file json_no_name) fs_sample app0 ''options.json'') = None \<and>
   options (snd (load_options_file py0 (rd_file json_no_name) fs_sample app0 ''options.json'')) =
     [\<lparr>id' = 1, name = ''None'', image_path = ''small.png''\<rparr>] \<and>
   dialogs (snd (load_options_file py0 (rd_file json_no_name) fs_sample app0 ''options.json'')) = []"
proof -
  have r: "rd_file json_no_name ''options.json'' = Inr json_no_name" by (simp add: rd_file_def)
  have d: "dialogs app0 = []" by (simp add: app0_def)
  from load_success_fields [where rd = "rd_file json_no_name" and path = "''options.json''"
      and raw = json_no_name and py = py0 and fs = fs_sample and s = app0, OF r parse_no_name]
    d load_no_name_fst r
  show ?thesis by (simp add: json_no_name_def)
qed

text \<open>
  Claim C7, amended. A file that cannot be read and a file whose coercion raises are
  reported the same way, by one error dialog with the path and the exception (under the
  titles \<open>Load Options Failed\<close> and \<open>Invalid Options Format\<close>), and in both cases the
  state is otherwise unchanged. The coercion of a parsed file raises exactly when the
  parsed value cannot be iterated, or some element is not an object, or \<open>int\<close> raises on
  the id of some element; it raises on a missing id. A missing name or image does not
  raise: the option gets the text \<open>None\<close> in its place.
\<close>

theorem coercion_failure_aborts:
  "(rd path = Inl e \<longrightarrow>
      load_options_file py rd fs s path =
        (None, s\<lparr>dialogs := dialogs s @ [ShowError ''Load Options Failed'' path e]\<rparr>)) \<and>
   (rd path = Inr raw \<and> parse_options py raw = Inl e \<longrightarrow>
      load_options_file py rd fs s path =
        (None, s\<lparr>dialogs := dialogs s @ [ShowError ''Invalid Options Format'' path e]\<rparr>)) \<and>
   ((\<exists>e'. parse_options py raw = Inl e') =
      (case py_iter raw of
         Inl e' \<Rightarrow> True
       | Inr items \<Rightarrow>
           (\<exists>item \<in> set items.
              case item of
                JObj kvs \<Rightarrow> (\<exists>e'. py_int py (dict_get kvs ''id'') = Inl e')
              | _ \<Rightarrow> True))) \<and>
   (map_of kvs ''id'' = None \<longrightarrow> py_int py (dict_get kvs ''id'') = Inl TypeError) \<and>
   (py_int py (dict_get kvs ''id'') = Inr i \<and> map_of kvs ''name'' = None \<and>
    map_of kvs ''image'' = None \<longrightarrow>
      make_option py (JObj kvs) = Inr \<lparr>id' = i, name = ''None'', image_path = ''None''\<rparr>)"
proof (intro conjI)
  show "rd path = Inl e \<longrightarrow>
      load_options_file py rd fs s path =
        (None, s\<lparr>dialogs := dialogs s @ [ShowError ''Load Options Failed'' path e]\<rparr>)"
    by (simp add: load_read_error)
  show "rd path = Inr raw \<and> parse_options py raw = Inl e \<longrightarrow>
      load_options_file py rd fs s path =
        (None, s\<lparr>dialogs := dialogs s @ [ShowError ''Invalid Options Format'' path e]\<rparr>)"
    by (simp add: load_parse_error)
  show "(\<exists>e'. parse_options py raw = Inl e') =
      (case py_iter raw of
         Inl e' \<Rightarrow> True
       | Inr items \<Rightarrow>
           (\<exists>item \<in> set items.
              case item of
                JObj kvs \<Rightarrow> (\<exists>e'. py_int py (dict_get kvs ''id'') = Inl e')
              | _ \<Rightarrow> True))"
    unfolding parse_options_Inl by (simp only: make_option_Inl)
  show "map_of kvs ''id'' = None \<longrightarrow> py_int py (dict_get kvs ''id'') = Inl TypeError"
    by (simp add: dict_get_def py_int_def)
  show "py_int py (dict_get kvs ''id'') = Inr i \<and> map_of kvs ''name'' = None \<and>
    map_of kvs ''image'' = None \<longrightarrow>
      make_option py (JObj kvs) = Inr \<lparr>id' = i, name = ''None'', image_path = ''None''\<rparr>"
    by (simp add: make_option_def dict_get_def py_str_def)
qed

text \<open>
  The amended claim at concrete inputs: an element without id, a path that names no
  file, and an element with nothing but an id.
\<close>

theorem coercion_failure_aborts_witness:
  "rd_file json_no_id ''options.json'' = Inr json_no_id \<and>
   parse_options py0 json_no_id = Inl TypeError \<and>
   load_options_file py0 (rd_file json_no_id) fs_sample app_A ''options.json'' =
     (None, app_A\<lparr>dialogs := dialogs app_A @
        [ShowError ''Invalid Options Format'' ''options.json'' TypeError]\<rparr>) \<and>
   rd_file json_no_id ''missing.json'' = Inl OSError \<and>
   load_options_file py0 (rd_file json_no_id) fs_sample app_A ''missing.json'' =
     (None, app_A\<lparr>dialogs := dialogs app_A @
        [ShowError ''Load Options Failed'' ''missing.json'' OSError]\<rparr>) \<and>
   map_of [(''name'', JStr ''B''), (''image'', JStr ''wide.png'')] ''id'' = None \<and>
   py_int py0 (dict_get [(''name'', JStr ''B''), (''image'', JStr ''wide.png'')] ''id'') =
     Inl TypeError \<and>
   py_int py0 (dict_get [(''id'', JInt 1)] ''id'') = Inr 1 \<and>
   make_option py0 (JObj [(''id'', JInt 1)]) = Inr \<lparr>id' = 1, name = ''None'', image_path = ''None''\<rparr>"
proof -
  have r: "rd_file json_no_id ''options.json'' = Inr json_no_id" by (simp add: rd_file_def)
  have m: "rd_file json_no_id ''missing.json'' = Inl OSError" by (simp add: rd_file_def)
  have a: "rd_file json_no_id ''options.json'' = Inr json_no_id \<and>
           parse_options py0 json_no_id = Inl TypeError"
    using r parse_no_id by simp
  note 1 = coercion_failure_aborts [of "rd_file json_no_id" "''options.json''" TypeError py0
      fs_sample app_A json_no_id, THEN conjunct2, THEN conjunct1, rule_format, OF a]
  note 2 = coercion_failure_aborts [of "rd_file json_no_id" "''missing.json''" OSError py0
      fs_sample app_A, THEN conjunct1, rule_format, OF m]
  have k: "map_of [(''name'', JStr ''B''), (''image'', JStr ''wide.png'')] ''id'' = None" by simp
  note 3 = coercion_failure_aborts [where kvs = "[(''name'', JStr ''B''), (''image'', JStr ''wide.png'')]"
      and py = py0, THEN conjunct2, THEN conjunct2, THEN conjunct2, THEN conjunct1, rule_format, OF k]
  have i: "py_int py0 (dict_get [(''id'', JInt 1)] ''id'') = Inr 1"
    by (simp add: py_int_def dict_get_def)
  have j: "py_int py0 (dict_get [(''id'', JInt 1)] ''id'') = Inr 1 \<and>
      map_of [(''id'', JInt 1)] ''name'' = None \<and> map_of [(''id'', JInt 1)] ''image'' = None"
    using i by simp
  note 4 = coercion_failure_aborts [where kvs = "[(''id'', JInt 1)]" and py = py0 and i = 1,
      THEN conjunct2, THEN conjunct2, THEN conjunct2, THEN conjunct2, rule_format, OF j]
  from r parse_no_id 1 m 2 k 3 i 4 show ?thesis by - (intro conjI; assumption)
qed

subsection \<open>C8: duplicate names\<close>

text \<open>
  Claim C8: after a load that succeeds, the name index maps every name of the loaded
  options to the last loaded option with that name, no dialog is shown, and the lookup
  of a cell whose selection is that name, in \<open>_refresh_cell_image\<close>, asks the image
  cache for the image of that last option.
\<close>

theorem duplicate_names_last_wins:
  assumes "rd path = Inr raw" and "parse_options py raw = Inr opts"
    and "s' = snd (load_options_file py rd fs s path)"
    and "n \<in> set (map name opts)"
    and "name_var cl = n"
  shows "name_to_option s' n = Some (last (filter (\<lambda>opt. name opt = n) opts)) \<and>
         dialogs s' = dialogs s \<and>
         refresh_cell_image fs' (name_to_option s') c cl =
           (case get fs' c (image_path (last (filter (\<lambda>opt. name opt = n) opts)))
                   (Some (CELL_WIDTH, CELL_HEIGHT)) of
              (Inl e, c') \<Rightarrow> (Inl e, c')
            | (Inr tk_img, c') \<Rightarrow> (Inr (cl\<lparr>img_label := tk_img\<rparr>), c'))"
proof -
  from load_success_fields [where rd = rd and path = path and raw = raw and py = py
      and opts = opts and fs = fs and s = s, OF assms(1,2)]
  have i: "name_to_option s' = index_by_name opts" and d: "dialogs s' = dialogs s"
    unfolding assms(3) by simp_all
  have l: "name_to_option s' n = Some (last (filter (\<lambda>opt. name opt = n) opts))"
    unfolding i using assms(4) by (simp only: index_by_name_last if_True)
  from l d assms(5) show ?thesis by (simp add: refresh_cell_image_def)
qed

text \<open>
  C8 at a concrete input: two options named A; the index holds the second.
\<close>

theorem duplicate_names_last_wins_witness:
  "rd_file json_dup ''options.json'' = Inr json_dup \<and>
   parse_options py0 json_dup = Inr [option_A, option_A2] \<and>
   name option_A = ''A'' \<and> name option_A2 = ''A'' \<and>
   name_to_option (snd (load_options_file py0 (rd_file json_dup) fs_sample app0 ''options.json''))
       ''A'' = Some option_A2 \<and>
   dialogs (snd (load_options_file py0 (rd_file json_dup) fs_sample app0 ''options.json'')) = []"
proof -
  have r: "rd_file json_dup ''options.json'' = Inr json_dup" by (simp add: rd_file_def)
  have n: "''A'' \<in> set (map name [option_A, option_A2])" by (simp add: option_A_def)
  have c: "name_var cell_A = ''A''" by (simp add: cell_A_def)
  note th = duplicate_names_last_wins [where rd = "rd_file json_dup" and path = "''options.json''"
      and raw = json_dup and py = py0 and opts = "[option_A, option_A2]" and fs = fs_sample
      and s = app0 and n = "''A''" and cl = cell_A, OF r parse_dup refl n c]
  have f: "last (filter (\<lambda>opt. name opt = ''A'') [option_A, option_A2]) = option_A2"
    by (simp add: option_A_def option_A2_def)
  have d: "dialogs app0 = []" by (simp add: app0_def)
  from th [THEN conjunct1] th [THEN conjunct2, THEN conjunct1] f d r parse_dup
  show ?thesis by (simp add: option_A_def option_A2_def)
qed

subsection \<open>C9: cells whose selection became invalid\<close>

text \<open>
  Claim C9 says that after a reload a cell whose selection is no longer a valid name
  keeps its displayed image until the next selection event. As stated this fails: the
  loop of \<open>load_options_file\<close> calls \<open>_refresh_cell_image\<close> on every cell, right after
  the selection is cleared, and that call clears the label. Here the first cell shows
  the image of option A; after a reload with the single option B its selection is
  empty and its label shows nothing.
\<close>

theorem reload_keeps_image_counterexample:
  "name_var (cells app_A ! 0) = ''A'' \<and>
   img_label (cells app_A ! 0) = Some (PhotoImage small_img) \<and>
   rd_file json_B ''options.json'' = Inr json_B \<and>
   parse_options py0 json_B = Inr [option_B] \<and>
   load_options_file py0 (rd_file json_B) fs_sample app_A ''options.json'' = (None, app_B) \<and>
   option_names app_B = [''B''] \<and>
   name_var (cells app_B ! 0) = [] \<and>
   img_label (cells app_B ! 0) = None"
  using load_B parse_B
  by (simp add: app_A_def app_B_def cell_A_def idle_cell_def rd_file_def)

text \<open>
  Claim C9, amended: after a reload that succeeds and completes, every cell whose
  selection is not among the new option names offers the new names, has its selection
  set to the empty string and, when no option has the empty name, has its displayed
  image cleared in the same call.
\<close>

theorem reload_clears_stale_cells:
  assumes "rd path = Inr raw" and "parse_options py raw = Inr opts"
    and "load_options_file py rd fs s path = (None, s')"
    and "i < length (cells s)"
    and "name_var (cells s ! i) \<notin> set (map name opts)"
  shows "length (cells s') = length (cells s) \<and>
         combo_values (cells s' ! i) = map name opts \<and>
         name_var (cells s' ! i) = [] \<and>
         ([] \<notin> set (map name opts) \<longrightarrow> img_label (cells s' ! i) = None)"
proof -
  note l = load_cells_result [OF load_success_cells [where rd = rd and path = path and raw = raw
      and py = py and opts = opts and fs = fs and s = s and s' = s', OF assms(1,2,3)]]
  from l have len: "length (cells s') = length (cells s)" by simp
  from l assms(4) have
    cell: "combo_values (cells s' ! i) = map name opts \<and>
        (name_var (cells s ! i) \<notin> set (map name opts) \<longrightarrow>
           name_var (cells s' ! i) = [] \<and>
           (index_by_name opts [] = None \<longrightarrow> img_label (cells s' ! i) = None))"
    by blast
  have "[] \<notin> set (map name opts) \<Longrightarrow> index_by_name opts [] = None"
    by (simp only: index_by_name_last if_False)
  with len cell assms(5) show ?thesis by simp
qed

text \<open>
  The amended claim at a concrete input: the reload of the counterexample, at the
  first cell.
\<close>

theorem reload_clears_stale_cells_witness:
  "rd_file json_B ''options.json'' = Inr json_B \<and>
   parse_options py0 json_B = Inr [option_B] \<and>
   load_options_file py0 (rd_file json_B) fs_sample app_A ''options.json'' = (None, app_B) \<and>
   name_var (cells app_A ! 0) = ''A'' \<and>
   img_label (cells app_A ! 0) = Some (PhotoImage small_img) \<and>
   length (cells app_B) = 9 \<and>
   combo_values (cells app_B ! 0) = [''B''] \<and>
   name_var (cells app_B ! 0) = [] \<and>
   img_label (cells app_B ! 0) = None"
proof -
  have r: "rd_file json_B ''options.json'' = Inr json_B" by (simp add: rd_file_def)
  have i: "0 < length (cells app_A)" by (simp add: app_A_def)
  have n: "name_var (cells app_A ! 0) \<notin> set (map name [option_B])"
    by (simp add: app_A_def cell_A_def option_B_def)
  note th = reload_clears_stale_cells [where rd = "rd_file json_B" and path = "''options.json''"
      and raw = json_B and py = py0 and opts = "[option_B]" and fs = fs_sample and s = app_A
      and s' = app_B and i = 0, OF r parse_B load_B i n]
  have e: "[] \<notin> set (map name [option_B])" by (simp add: option_B_def)
  from th e have "img_label (cells app_B ! 0) = None" by blast
  with th r parse_B load_B show ?thesis
    by (simp add: app_A_def cell_A_def option_B_def)
qed


end
